theory Spec2Isabelle
  imports Main "HOL-Library.Sublist"
begin

section \<open>Shared vocabulary: errors and messages\<close>

text \<open>
  The error values of \<^verbatim>\<open>internal/component/errors.go\<close> that the modelled code returns,
  an opaque error for everything an external collaborator reports, and the wrapping
  \<^verbatim>\<open>fmt.Errorf("%v: %w", path, err)\<close> of the resource reader.
\<close>

datatype error =
    ErrTimeout
  | ErrTypeClosed
  | ErrNotConnected
  | ExternalError string
  | Wrapped string error

text \<open>A call either panics or returns.\<close>

datatype 'a outcome = Panic | Returns 'a

text \<open>
  A \<^verbatim>\<open>service.Message\<close> as far as the modelled components look at it: what
  \<^verbatim>\<open>AsBytes\<close> returns (the bytes, or the error of serialising a structured payload),
  the metadata, and the processing error attached by \<^verbatim>\<open>SetError\<close>.
\<close>

record Message =
  AsBytes :: "error + string"
  MetaData :: "(string \<times> string) list"
  Error :: "error option"

section \<open>The mutation processor\<close>

text \<open>
  \<^verbatim>\<open>mutationProc.ProcessBatch\<close>. The mapping language is an external collaborator:
  \<^verbatim>\<open>batch.BloblangMutate(i, m.exec)\<close> is the parameter \<open>mutate\<close>, which sees the whole
  batch and the index and returns an error, a deleted message (\<open>nil\<close>, here \<open>None\<close>) or
  the new part. A mutation works on the message in place, so a mapping that fails may
  have changed the message before: with the error \<open>mutate\<close> gives the message as it left
  it, and that is the message \<^verbatim>\<open>msg\<close> of the error branch. The batch holds pointers, so
  this message and \<^verbatim>\<open>msg.SetError(err)\<close> are visible to the later calls of the
  mapping: the loop threads the batch. The loop also returns the lines given to
  \<^verbatim>\<open>m.log.Error\<close>.
\<close>

function mutate_from ::
  "(Message list \<Rightarrow> nat \<Rightarrow> error \<times> Message + Message option) \<Rightarrow> Message list \<Rightarrow> nat \<Rightarrow>
   Message list \<Rightarrow> error list \<Rightarrow> Message list \<times> error list" where
  "mutate_from mutate batch i newBatch lg =
     (if i < length batch then
        (case mutate batch i of
           Inl (e, left) \<Rightarrow>
             (let msg = left\<lparr>Error := Some e\<rparr>
              in mutate_from mutate (batch[i := msg]) (Suc i) (newBatch @ [msg]) (lg @ [e]))
         | Inr None \<Rightarrow> mutate_from mutate batch (Suc i) newBatch lg
         | Inr (Some newPart) \<Rightarrow> mutate_from mutate batch (Suc i) (newBatch @ [newPart]) lg)
      else (newBatch, lg))"
  by pat_completeness auto
termination
  by (relation "measure (\<lambda>(mutate, batch, i, newBatch, lg). length batch - i)") auto

text \<open>
  The result is the list of output batches (\<open>nil\<close> is the empty list), the returned
  error and the logged errors.
\<close>

definition mutationProc_ProcessBatch ::
  "(Message list \<Rightarrow> nat \<Rightarrow> error \<times> Message + Message option) \<Rightarrow> Message list \<Rightarrow>
   Message list list \<times> error option \<times> error list" where
  "mutationProc_ProcessBatch mutate batch =
     (case mutate_from mutate batch 0 [] [] of
        (newBatch, lg) \<Rightarrow>
          if length newBatch = 0 then ([], None, lg) else ([newBatch], None, lg))"

section \<open>The COS output\<close>

text \<open>
  \<^verbatim>\<open>internal/impl/cos/output.go\<close>, in the revision that gathers a batch into one
  object. The COS SDK and \<^verbatim>\<open>net/url\<close> are external:
  \<^verbatim>\<open>url.Parse\<close> is the parameter \<open>url_Parse\<close>, and \<^verbatim>\<open>client.Object.Put\<close> is the
  parameter \<open>put\<close>, which says for a client, a key and a body whether the upload
  returns, with an error or without, or panics inside the SDK (as it can for a client
  built without a bucket URL). The two interpolated strings are functions of the message.
\<close>

datatype URL = URL string

record cosClient =
  BucketURL :: "URL option"
  SecretID :: string
  SecretKey :: string

record cosOutput =
  url :: string
  secretId :: string
  secretKey :: string
  directory :: "Message \<Rightarrow> string"
  path :: "Message \<Rightarrow> string"
  client :: "cosClient option"

text \<open>
  \<^verbatim>\<open>u, _ := url.Parse(c.url)\<close>: the error is dropped and \<open>u\<close> is \<open>nil\<close> when parsing
  failed. The result is the returned error and the updated output.
\<close>

definition cosOutput_Connect :: "(string \<Rightarrow> error + URL) \<Rightarrow> cosOutput \<Rightarrow> error option \<times> cosOutput" where
  "cosOutput_Connect url_Parse c =
     (let u = (case url_Parse (url c) of Inl _ \<Rightarrow> None | Inr v \<Rightarrow> Some v);
          b = \<lparr>BucketURL = u, SecretID = secretId c, SecretKey = secretKey c\<rparr>
      in (None, c\<lparr>client := Some b\<rparr>))"

text \<open>
  The loop of \<^verbatim>\<open>WriteBatch\<close>: the key is set while it is still the empty string, the
  buffer grows by the content and a newline, and the first failing \<^verbatim>\<open>AsBytes\<close>
  returns.
\<close>

fun gather :: "cosOutput \<Rightarrow> Message list \<Rightarrow> string \<Rightarrow> string \<Rightarrow> error + (string \<times> string)" where
  "gather c [] key data = Inr (key, data)"
| "gather c (msg # batch) key data =
     (let key' = (if key = [] then directory c msg @ path c msg else key)
      in case AsBytes msg of
           Inl err \<Rightarrow> Inl err
         | Inr content \<Rightarrow> gather c batch key' (data @ content @ [CHR 0x0A]))"

text \<open>
  The outcome of \<^verbatim>\<open>WriteBatch\<close>: a nil-pointer panic when \<^verbatim>\<open>c.client\<close> was never
  set, a panic inside \<^verbatim>\<open>Put\<close>, or the returned error; the last two with the
  \<^verbatim>\<open>Put\<close> calls made, each with its key and body.
\<close>

datatype write_outcome =
    NilClientPanic
  | PutPanic "(string \<times> string) list"
  | Returned "error option" "(string \<times> string) list"

definition cosOutput_WriteBatch ::
  "(cosClient \<Rightarrow> string \<Rightarrow> string \<Rightarrow> error option outcome) \<Rightarrow> cosOutput \<Rightarrow>
   Message list \<Rightarrow> write_outcome" where
  "cosOutput_WriteBatch put c batch =
     (case gather c batch [] [] of
        Inl err \<Rightarrow> Returned (Some err) []
      | Inr (key, dataBytes) \<Rightarrow>
          (case client c of
             None \<Rightarrow> NilClientPanic
           | Some cl \<Rightarrow>
               (case put cl key dataBytes of
                  Panic \<Rightarrow> PutPanic [(key, dataBytes)]
                | Returns err \<Rightarrow> Returned err [(key, dataBytes)])))"

section \<open>The resource reader: live reconfiguration\<close>

subsection \<open>Resource configurations and the per-file record\<close>

text \<open>
  The five resource categories, in the order in which \<^verbatim>\<open>applyChanges\<close> walks them.
  The five Go configuration types (\<^verbatim>\<open>ratelimit.Config\<close>, \<^verbatim>\<open>cache.Config\<close>, ...) are
  one record here: the label, and the rest of the configuration as an opaque string.
\<close>

datatype category = RateLimit | Cache | Processor | Input | Output

record Config =
  Label :: string
  Settings :: string

record ResourceConfig =
  ResourceInputs :: "Config list"
  ResourceProcessors :: "Config list"
  ResourceOutputs :: "Config list"
  ResourceCaches :: "Config list"
  ResourceRateLimits :: "Config list"

record resourceFileInfo =
  updatedAt :: nat
  inputs :: "string \<rightharpoonup> Config"
  processors :: "string \<rightharpoonup> Config"
  outputs :: "string \<rightharpoonup> Config"
  caches :: "string \<rightharpoonup> Config"
  rateLimits :: "string \<rightharpoonup> Config"

text \<open>
  One loop of \<^verbatim>\<open>resInfoFromConfig\<close>:
  \<^verbatim>\<open>for _, c := range cs { m[c.Label] = &c }\<close>.
  The map holds pointers to the loop variable. Before Go 1.22 the loop has one variable
  for all iterations, so every entry points to it and is, once the loop is over, the last
  element of \<open>cs\<close>; from Go 1.22 on each iteration has its own variable. The language
  version is set outside the source files, so it is the parameter \<open>shared_loopvar\<close>.
  The keys are the labels of \<open>cs\<close> under both.
\<close>

definition index_by_label :: "bool \<Rightarrow> Config list \<Rightarrow> (string \<rightharpoonup> Config)" where
  "index_by_label shared_loopvar cs =
     (let m = fold (\<lambda>c m. m(Label c \<mapsto> c)) cs Map.empty
      in if shared_loopvar then (\<lambda>k. map_option (\<lambda>_. last cs) (m k)) else m)"

definition resInfoFromConfig :: "bool \<Rightarrow> nat \<Rightarrow> ResourceConfig \<Rightarrow> resourceFileInfo" where
  "resInfoFromConfig shared_loopvar now conf =
     \<lparr>updatedAt = now,
      inputs = index_by_label shared_loopvar (ResourceInputs conf),
      processors = index_by_label shared_loopvar (ResourceProcessors conf),
      outputs = index_by_label shared_loopvar (ResourceOutputs conf),
      caches = index_by_label shared_loopvar (ResourceCaches conf),
      rateLimits = index_by_label shared_loopvar (ResourceRateLimits conf)\<rparr>"

subsection \<open>Reading a resource file\<close>

text \<open>
  What \<^verbatim>\<open>readResource\<close> calls outside this file: reading the file with environment
  variables replaced (the bytes and the lints of that step, as strings), the YAML parser,
  the linter and the decoder, and what \<^verbatim>\<open>reactResourceUpdate\<close> takes from its
  surroundings: the component factory behind the manager's \<^verbatim>\<open>Store...\<close> methods, the
  clock, and the loop-variable rule of the compiler.
\<close>

datatype yaml_Node = yaml_Node string

record externals =
  ReadFileEnvSwap :: "string \<Rightarrow> error + (string \<times> string list)"
  yaml_Unmarshal :: "string \<Rightarrow> error + yaml_Node"
  LintYAML :: "yaml_Node \<Rightarrow> string list"
  Decode :: "yaml_Node \<Rightarrow> error + ResourceConfig"
  start_component :: "(category \<times> string \<rightharpoonup> Config) \<Rightarrow> category \<Rightarrow> string \<Rightarrow> Config \<Rightarrow> error option"
  time_Now :: nat
  shared_loopvar :: bool

text \<open>
  The named results \<open>lints\<close> and \<open>err\<close> of \<^verbatim>\<open>readResource\<close> and the decoded
  configuration; the deferred function wraps every error with the path.
\<close>

definition readResource :: "externals \<Rightarrow> string \<Rightarrow> string list \<times> (error + ResourceConfig)" where
  "readResource ext rpath =
     (case ReadFileEnvSwap ext rpath of
        Inl err \<Rightarrow> ([], Inl (Wrapped rpath err))
      | Inr (confBytes, dLints) \<Rightarrow>
          (case yaml_Unmarshal ext confBytes of
             Inl err \<Rightarrow> (dLints, Inl (Wrapped rpath err))
           | Inr rawNode \<Rightarrow>
               (let lints =
                      (if \<not> prefix ''# BENTHOS LINT DISABLE'' confBytes
                       then dLints @ map (\<lambda>lint. rpath @ lint) (LintYAML ext rawNode)
                       else dLints)
                in case Decode ext rawNode of
                     Inl err \<Rightarrow> (lints, Inl (Wrapped rpath err))
                   | Inr conf \<Rightarrow> (lints, Inr conf))))"

subsection \<open>The manager\<close>

text \<open>
  The lines the reader gives to \<^verbatim>\<open>mgr.Logger()\<close>, one constructor per format string.
\<close>

datatype log_line =
    SkippingUnknownPath string
  | ConfigUpdated string
  | FailedToRead error
  | LintLine string
  | RejectingLinted
  | FailedToUpdate string error
  | UpdatedResource string

record manager =
  registry :: "category \<times> string \<rightharpoonup> Config"
  stores :: "(category \<times> string) list"
  logged :: "log_line list"

text \<open>
  Modelled from the spec: the manager's \<^verbatim>\<open>StoreRateLimit\<close>, \<^verbatim>\<open>StoreCache\<close>,
  \<^verbatim>\<open>StoreProcessor\<close>, \<^verbatim>\<open>StoreInput\<close> and \<^verbatim>\<open>StoreOutput\<close>, whose code is in
  \<^verbatim>\<open>internal/manager\<close> and not among the sources. By the spec a Store constructs and
  starts an instance from the configuration and swaps it into the slot of the label, and
  a failed construction or start leaves the slot as it was. Whether construction fails
  (also by the deadline of the context) is \<open>start_component\<close>, which sees the
  registry. The field \<open>stores\<close> keeps every Store call made, failed ones too, in
  order; \<open>logged\<close> are the lines given to the manager's logger.
\<close>

definition Store ::
  "externals \<Rightarrow> category \<Rightarrow> string \<Rightarrow> Config \<Rightarrow> manager \<Rightarrow> error option \<times> manager" where
  "Store ext cat k v mgr =
     (case start_component ext (registry mgr) cat k v of
        Some err \<Rightarrow> (Some err, mgr\<lparr>stores := stores mgr @ [(cat, k)]\<rparr>)
      | None \<Rightarrow>
          (None, mgr\<lparr>registry := (registry mgr)((cat, k) \<mapsto> v),
                      stores := stores mgr @ [(cat, k)]\<rparr>))"

definition logf :: "log_line \<Rightarrow> manager \<Rightarrow> manager" where
  "logf l mgr = mgr\<lparr>logged := logged mgr @ [l]\<rparr>"

subsection \<open>Applying a file\<close>

text \<open>
  A Go \<^verbatim>\<open>range\<close> over a map visits every key once, in an order the runtime picks.
  The order of each of the five loops is an argument: \<open>entries m ks\<close> are the entries
  of \<open>m\<close> in the order \<open>ks\<close>, and \<open>range_order m ks\<close> says that \<open>ks\<close> is an order in
  which \<^verbatim>\<open>range\<close> can visit \<open>m\<close>.
\<close>

fun entries :: "(string \<rightharpoonup> Config) \<Rightarrow> string list \<Rightarrow> (string \<times> Config) list" where
  "entries m [] = []"
| "entries m (k # ks) = (case m k of None \<Rightarrow> entries m ks | Some v \<Rightarrow> (k, v) # entries m ks)"

definition range_order :: "(string \<rightharpoonup> Config) \<Rightarrow> string list \<Rightarrow> bool" where
  "range_order m ks \<longleftrightarrow> distinct ks \<and> set ks = dom m"

record range_orders =
  rateLimits_order :: "string list"
  caches_order :: "string list"
  processors_order :: "string list"
  inputs_order :: "string list"
  outputs_order :: "string list"

text \<open>
  One of the five loops of \<^verbatim>\<open>applyChanges\<close>: store each entry, log it, and return
  \<open>False\<close> at the first Store that fails.
\<close>

fun store_each ::
  "externals \<Rightarrow> category \<Rightarrow> (string \<times> Config) list \<Rightarrow> manager \<Rightarrow> bool \<times> manager" where
  "store_each ext cat [] mgr = (True, mgr)"
| "store_each ext cat ((k, v) # kvs) mgr =
     (case Store ext cat k v mgr of
        (Some err, mgr') \<Rightarrow> (False, logf (FailedToUpdate k err) mgr')
      | (None, mgr') \<Rightarrow> store_each ext cat kvs (logf (UpdatedResource k) mgr'))"

definition applyChanges ::
  "externals \<Rightarrow> range_orders \<Rightarrow> resourceFileInfo \<Rightarrow> manager \<Rightarrow> bool \<times> manager" where
  "applyChanges ext ord i mgr =
     (case store_each ext RateLimit (entries (rateLimits i) (rateLimits_order ord)) mgr of
        (False, mgr1) \<Rightarrow> (False, mgr1)
      | (True, mgr1) \<Rightarrow>
     (case store_each ext Cache (entries (caches i) (caches_order ord)) mgr1 of
        (False, mgr2) \<Rightarrow> (False, mgr2)
      | (True, mgr2) \<Rightarrow>
     (case store_each ext Processor (entries (processors i) (processors_order ord)) mgr2 of
        (False, mgr3) \<Rightarrow> (False, mgr3)
      | (True, mgr3) \<Rightarrow>
     (case store_each ext Input (entries (inputs i) (inputs_order ord)) mgr3 of
        (False, mgr4) \<Rightarrow> (False, mgr4)
      | (True, mgr4) \<Rightarrow>
          store_each ext Output (entries (outputs i) (outputs_order ord)) mgr4))))"

subsection \<open>Reacting to a changed file\<close>

record Reader =
  resourceFileInfo :: "string \<rightharpoonup> resourceFileInfo"

text \<open>
  \<^verbatim>\<open>reactResourceUpdate\<close> runs under the reader's mutex, so it is one step here. The
  result is the returned flag, the reader and the manager.
\<close>

definition reactResourceUpdate ::
  "externals \<Rightarrow> range_orders \<Rightarrow> bool \<Rightarrow> string \<Rightarrow> Reader \<Rightarrow> manager \<Rightarrow> bool \<times> Reader \<times> manager" where
  "reactResourceUpdate ext ord strict rpath r mgr =
     (if resourceFileInfo r rpath = None then
        (True, r, logf (SkippingUnknownPath rpath) mgr)
      else
        (let mgr1 = logf (ConfigUpdated rpath) mgr
         in case readResource ext rpath of
              (lints, Inl err) \<Rightarrow> (True, r, logf (FailedToRead err) mgr1)
            | (lints, Inr newResConf) \<Rightarrow>
                (let mgr2 = fold (\<lambda>lint. logf (LintLine lint)) lints mgr1
                 in if strict \<and> length lints > 0 then
                      (True, r, logf RejectingLinted mgr2)
                    else
                      (let newInfo = resInfoFromConfig (shared_loopvar ext) (time_Now ext) newResConf
                       in case applyChanges ext ord newInfo mgr2 of
                            (False, mgr3) \<Rightarrow> (False, r, mgr3)
                          | (True, mgr3) \<Rightarrow>
                              (True, r\<lparr>resourceFileInfo := (resourceFileInfo r)(rpath \<mapsto> newInfo)\<rparr>,
                               mgr3)))))"

section \<open>The NSQ reader\<close>

subsection \<open>State\<close>

text \<open>
  \<^verbatim>\<open>*nsq.Message\<close> and \<^verbatim>\<open>*nsq.Consumer\<close> are pointers to objects of the NSQ client
  library. A pointer is a number; the objects are in a store that is part of the state,
  because the closure returned by \<^verbatim>\<open>ReadBatch\<close> and the list \<^verbatim>\<open>unAckMsgs\<close> reach the
  same message. Of a message the model keeps the body and the responses the reader has
  called on it, in order; of the consumers, on which ones \<^verbatim>\<open>Stop\<close> was called.
  What the client library sends to the NSQ daemon for these responses is \<open>forwarded\<close>,
  defined with the descriptions below. The reader's logger is left out, and so is \<^verbatim>\<open>HandleMessage\<close>, the sending
  side of \<^verbatim>\<open>internalMessages\<close>: a message that it hands over is the case
  \<open>RecvMessage\<close> below.
\<close>

datatype response = Requeue int | Finish

record nsq_Message =
  Body :: string
  responses :: "response list"

record NSQConfig =
  Addresses :: "string list"
  LookupAddresses :: "string list"
  TLS_Enabled :: bool

record nsqReader =
  consumer :: "nat option"
  unAckMsgs :: "nat list"
  tlsConf :: "string option"
  addresses :: "string list"
  lookupAddresses :: "string list"
  conf :: NSQConfig
  interruptChan_closed :: bool
  interruptOnce_done :: bool
  msgs :: "nat \<Rightarrow> nsq_Message"
  stopped :: "nat list"

text \<open>\<^verbatim>\<open>strings.Split(addr, ",")\<close>, and the two address loops of the constructor.\<close>

fun split_commas :: "string \<Rightarrow> string list" where
  "split_commas [] = [[]]"
| "split_commas (c # cs) =
     (if c = CHR '','' then [] # split_commas cs
      else (case split_commas cs of
              [] \<Rightarrow> [[c]]
            | w # ws \<Rightarrow> (c # w) # ws))"

definition split_addresses :: "string list \<Rightarrow> string list" where
  "split_addresses addrs =
     concat (map (\<lambda>addr. filter (\<lambda>splitAddr. length splitAddr > 0) (split_commas addr)) addrs)"

text \<open>
  \<^verbatim>\<open>newNSQReader\<close>. \<^verbatim>\<open>conf.TLS.Get\<close> is external (\<open>tls_Get\<close>); \<open>store\<close> is the
  message store the reader starts in. The channel \<^verbatim>\<open>interruptChan\<close> is open and the
  \<^verbatim>\<open>sync.Once\<close> has not run.
\<close>

definition newNSQReader ::
  "(error + string) \<Rightarrow> (nat \<Rightarrow> nsq_Message) \<Rightarrow> NSQConfig \<Rightarrow> error + nsqReader" where
  "newNSQReader tls_Get store cf =
     (let n = \<lparr>consumer = None, unAckMsgs = [], tlsConf = None,
                addresses = split_addresses (Addresses cf),
                lookupAddresses = split_addresses (LookupAddresses cf),
                conf = cf, interruptChan_closed = False, interruptOnce_done = False,
                msgs = store, stopped = []\<rparr>
      in if TLS_Enabled cf then
           (case tls_Get of
              Inl err \<Rightarrow> Inl err
            | Inr t \<Rightarrow> Inr (n\<lparr>tlsConf := Some t\<rparr>))
         else Inr n)"

subsection \<open>Connect and disconnect\<close>

text \<open>
  What the client library does in \<^verbatim>\<open>Connect\<close>: \<^verbatim>\<open>NewConsumer\<close> fails, or it gives a
  consumer and one of the two connection calls fails (the consumer is stopped), or all
  three succeed.
\<close>

datatype connect_env =
    NewConsumerFails error
  | ConnectToNSQDsFails nat error
  | ConnectToNSQLookupdsFails nat error
  | Connects nat

definition nsqReader_Connect :: "connect_env \<Rightarrow> nsqReader \<Rightarrow> error option \<times> nsqReader" where
  "nsqReader_Connect env n =
     (if consumer n \<noteq> None then (None, n)
      else (case env of
              NewConsumerFails err \<Rightarrow> (Some err, n)
            | ConnectToNSQDsFails c err \<Rightarrow> (Some err, n\<lparr>stopped := stopped n @ [c]\<rparr>)
            | ConnectToNSQLookupdsFails c err \<Rightarrow> (Some err, n\<lparr>stopped := stopped n @ [c]\<rparr>)
            | Connects c \<Rightarrow> (None, n\<lparr>consumer := Some c\<rparr>)))"

definition disconnect :: "nsqReader \<Rightarrow> error option \<times> nsqReader" where
  "disconnect n =
     (case consumer n of
        Some c \<Rightarrow> (None, n\<lparr>stopped := stopped n @ [c], consumer := None\<rparr>)
      | None \<Rightarrow> (None, n))"

subsection \<open>Reading and acknowledging\<close>

definition respond :: "response \<Rightarrow> nat \<Rightarrow> nsqReader \<Rightarrow> nsqReader" where
  "respond rsp m n =
     n\<lparr>msgs := (msgs n)(m := (msgs n m)\<lparr>responses := responses (msgs n m) @ [rsp]\<rparr>)\<rparr>"

text \<open>
  The \<^verbatim>\<open>select\<close> of \<^verbatim>\<open>read\<close> returns through one of its three cases. Which one is
  the argument: a message received from \<^verbatim>\<open>internalMessages\<close>, the context done, or
  \<^verbatim>\<open>interruptChan\<close>. The first two are ready when the surroundings make them so; a
  receive from \<^verbatim>\<open>interruptChan\<close>, on which nothing is ever sent, is ready only once the
  channel is closed.
\<close>

datatype select_case = RecvMessage nat | CtxDone | Interrupt

definition ready :: "nsqReader \<Rightarrow> select_case \<Rightarrow> bool" where
  "ready n sc = (case sc of Interrupt \<Rightarrow> interruptChan_closed n | _ \<Rightarrow> True)"

text \<open>
  \<^verbatim>\<open>read\<close>: \<open>None\<close> when the chosen case is not ready, so that the call does not
  return through it; otherwise the message or the error, and the state.
\<close>

definition requeue_all :: "nat list \<Rightarrow> nsqReader \<Rightarrow> nsqReader" where
  "requeue_all ms n = fold (\<lambda>m n'. respond Finish m (respond (Requeue (- 1)) m n')) ms n"

definition read :: "select_case \<Rightarrow> nsqReader \<Rightarrow> ((error + nat) \<times> nsqReader) option" where
  "read sc n =
     (if \<not> ready n sc then None
      else (case sc of
              RecvMessage msg \<Rightarrow> Some (Inr msg, n)
            | CtxDone \<Rightarrow> Some (Inl ErrTimeout, n)
            | Interrupt \<Rightarrow>
                (let n1 = requeue_all (unAckMsgs n) n;
                     n2 = n1\<lparr>unAckMsgs := []\<rparr>;
                     n3 = snd (disconnect n2)
                 in Some (Inl ErrTypeClosed, n3))))"

text \<open>
  The closure that \<^verbatim>\<open>ReadBatch\<close> returns, with the captured message as its first
  argument: \<open>res\<close> is the outcome (\<open>None\<close> is \<open>nil\<close>), the result the returned error
  and the state.
\<close>

definition AckFn :: "nat \<Rightarrow> error option \<Rightarrow> nsqReader \<Rightarrow> error option \<times> nsqReader" where
  "AckFn msg res n =
     (let n1 = (if res \<noteq> None then respond (Requeue (- 1)) msg n else n)
      in (None, respond Finish msg n1))"

text \<open>
  \<^verbatim>\<open>ReadBatch\<close>: the batch is the list of its message bodies
  (\<^verbatim>\<open>message.QuickBatch([][]byte{msg.Body})\<close>).
\<close>

definition nsqReader_ReadBatch ::
  "select_case \<Rightarrow> nsqReader \<Rightarrow>
   ((error + string list \<times> (error option \<Rightarrow> nsqReader \<Rightarrow> error option \<times> nsqReader)) \<times> nsqReader) option" where
  "nsqReader_ReadBatch sc n =
     (case read sc n of
        None \<Rightarrow> None
      | Some (Inl err, n') \<Rightarrow> Some (Inl err, n')
      | Some (Inr msg, n') \<Rightarrow>
          Some (Inr ([Body (msgs n' msg)], AckFn msg), n'\<lparr>unAckMsgs := unAckMsgs n' @ [msg]\<rparr>))"

subsection \<open>Close\<close>

text \<open>
  Closing a closed channel panics. \<^verbatim>\<open>interruptOnce.Do(f)\<close> runs \<open>f\<close> unless the Once
  is done, and is done afterwards. \<^verbatim>\<open>Close\<close> is these two steps and
  \<^verbatim>\<open>disconnect\<close>, each atomic (the Once by its own lock, \<^verbatim>\<open>disconnect\<close> by \<^verbatim>\<open>cMut\<close>).
\<close>

definition close_interruptChan :: "nsqReader \<Rightarrow> nsqReader outcome" where
  "close_interruptChan n =
     (if interruptChan_closed n then Panic else Returns (n\<lparr>interruptChan_closed := True\<rparr>))"

definition interruptOnce_Do :: "(nsqReader \<Rightarrow> nsqReader outcome) \<Rightarrow> nsqReader \<Rightarrow> nsqReader outcome" where
  "interruptOnce_Do f n =
     (if interruptOnce_done n then Returns n
      else (case f n of
              Panic \<Rightarrow> Panic
            | Returns n' \<Rightarrow> Returns (n'\<lparr>interruptOnce_done := True\<rparr>)))"

definition nsqReader_Close :: "nsqReader \<Rightarrow> (error option \<times> nsqReader) outcome" where
  "nsqReader_Close n =
     (case interruptOnce_Do close_interruptChan n of
        Panic \<Rightarrow> Panic
      | Returns n1 \<Rightarrow> Returns (disconnect n1))"

subsection \<open>Histories of calls\<close>

text \<open>
  A history is a list of calls on one reader, each run to its end before the next: a
  \<^verbatim>\<open>Connect\<close>, a \<^verbatim>\<open>ReadBatch\<close> with the case its \<^verbatim>\<open>select\<close> takes, the closure of a
  message called with an outcome, or a \<^verbatim>\<open>Close\<close>. \<open>run\<close> is \<open>None\<close> when a call of the
  history does not return (its case is not ready) or panics.
\<close>

datatype call = CallConnect connect_env | CallReadBatch select_case
  | CallAck nat "error option" | CallClose

fun exec :: "call \<Rightarrow> nsqReader \<Rightarrow> nsqReader option" where
  "exec (CallConnect env) n = Some (snd (nsqReader_Connect env n))"
| "exec (CallReadBatch sc) n = map_option snd (nsqReader_ReadBatch sc n)"
| "exec (CallAck msg res) n = Some (snd (AckFn msg res n))"
| "exec CallClose n = (case nsqReader_Close n of Panic \<Rightarrow> None | Returns (err, n') \<Rightarrow> Some n')"

fun run :: "call list \<Rightarrow> nsqReader \<Rightarrow> nsqReader option" where
  "run [] n = Some n"
| "run (c # cs) n = (case exec c n of None \<Rightarrow> None | Some n' \<Rightarrow> run cs n')"

text \<open>
  The steps of concurrent calls of \<^verbatim>\<open>Close\<close> interleave: each call does \<open>OnceDo\<close>
  and then \<open>Disconnect\<close>, and a schedule is the list of the steps in the order in which
  they run. \<open>run_steps\<close> also counts how often the body of the Once, the
  \<^verbatim>\<open>close(n.interruptChan)\<close>, has run.
\<close>

datatype close_step = OnceDo | Disconnect

fun run_steps :: "close_step list \<Rightarrow> nsqReader \<Rightarrow> nat \<Rightarrow> (nsqReader \<times> nat) outcome" where
  "run_steps [] n closes = Returns (n, closes)"
| "run_steps (OnceDo # sched) n closes =
     (case interruptOnce_Do close_interruptChan n of
        Panic \<Rightarrow> Panic
      | Returns n' \<Rightarrow>
          run_steps sched n' (if interruptOnce_done n then closes else Suc closes))"
| "run_steps (Disconnect # sched) n closes = run_steps sched (snd (disconnect n)) closes"

section \<open>Descriptions used by the statements\<close>

subsection \<open>The object written by the COS output\<close>

text \<open>
  The object that one call of \<^verbatim>\<open>WriteBatch\<close> uploads, said without the loop: the
  error of the first message whose bytes cannot be read, the key as the first
  interpolated directory and path that is not the empty string, and the body as the
  bytes of the messages, a newline after each.
\<close>

fun first_error :: "Message list \<Rightarrow> error option" where
  "first_error [] = None"
| "first_error (m # ms) = (case AsBytes m of Inl err \<Rightarrow> Some err | Inr _ \<Rightarrow> first_error ms)"

fun object_key :: "cosOutput \<Rightarrow> Message list \<Rightarrow> string" where
  "object_key c [] = []"
| "object_key c (m # ms) =
     (if directory c m @ path c m \<noteq> [] then directory c m @ path c m else object_key c ms)"

definition object_body :: "Message list \<Rightarrow> string" where
  "object_body batch =
     concat (map (\<lambda>m. case AsBytes m of Inl _ \<Rightarrow> [] | Inr content \<Rightarrow> content @ [CHR 0x0A]) batch)"

subsection \<open>The Store calls of one file\<close>

text \<open>
  The Store calls that \<^verbatim>\<open>applyChanges\<close> has to make for a file, as one list in the
  order of the five loops; storing a list of entries in order until one fails; the
  registry after a list of successful Stores; whether every Store of a list succeeds
  when they are made in order; the position of a category in the fixed order; the labels
  a parsed file declares in a category; and the Store calls made between two states of
  the manager.
\<close>

definition store_plan :: "range_orders \<Rightarrow> resourceFileInfo \<Rightarrow> (category \<times> string \<times> Config) list" where
  "store_plan ord i =
     map (Pair RateLimit) (entries (rateLimits i) (rateLimits_order ord)) @
     map (Pair Cache) (entries (caches i) (caches_order ord)) @
     map (Pair Processor) (entries (processors i) (processors_order ord)) @
     map (Pair Input) (entries (inputs i) (inputs_order ord)) @
     map (Pair Output) (entries (outputs i) (outputs_order ord))"

fun store_in_order ::
  "externals \<Rightarrow> (category \<times> string \<times> Config) list \<Rightarrow> manager \<Rightarrow> bool \<times> manager" where
  "store_in_order ext [] mgr = (True, mgr)"
| "store_in_order ext ((cat, k, v) # plan) mgr =
     (case Store ext cat k v mgr of
        (Some err, mgr') \<Rightarrow> (False, logf (FailedToUpdate k err) mgr')
      | (None, mgr') \<Rightarrow> store_in_order ext plan (logf (UpdatedResource k) mgr'))"

fun put_all ::
  "(category \<times> string \<times> Config) list \<Rightarrow> (category \<times> string \<rightharpoonup> Config) \<Rightarrow>
   (category \<times> string \<rightharpoonup> Config)" where
  "put_all [] reg = reg"
| "put_all ((cat, k, v) # plan) reg = put_all plan (reg((cat, k) \<mapsto> v))"

fun all_start ::
  "externals \<Rightarrow> (category \<times> string \<times> Config) list \<Rightarrow> (category \<times> string \<rightharpoonup> Config) \<Rightarrow> bool" where
  "all_start ext [] reg = True"
| "all_start ext ((cat, k, v) # plan) reg =
     (start_component ext reg cat k v = None \<and> all_start ext plan (reg((cat, k) \<mapsto> v)))"

definition store_key :: "category \<times> string \<times> Config \<Rightarrow> category \<times> string" where
  "store_key e = (fst e, fst (snd e))"

fun category_rank :: "category \<Rightarrow> nat" where
  "category_rank RateLimit = 0"
| "category_rank Cache = 1"
| "category_rank Processor = 2"
| "category_rank Input = 3"
| "category_rank Output = 4"

fun declared :: "ResourceConfig \<Rightarrow> category \<Rightarrow> string set" where
  "declared cf RateLimit = Label ` set (ResourceRateLimits cf)"
| "declared cf Cache = Label ` set (ResourceCaches cf)"
| "declared cf Processor = Label ` set (ResourceProcessors cf)"
| "declared cf Input = Label ` set (ResourceInputs cf)"
| "declared cf Output = Label ` set (ResourceOutputs cf)"

definition new_stores :: "manager \<Rightarrow> manager \<Rightarrow> (category \<times> string) list" where
  "new_stores mgr mgr' = drop (length (stores mgr)) (stores mgr')"

subsection \<open>What the NSQ daemon receives, and the consumer to stop\<close>

text \<open>
  Taken from the NSQ client library, which is not part of the repository: a message handle
  sends the first response called on it, \<^verbatim>\<open>Requeue\<close> or \<^verbatim>\<open>Finish\<close>, to the daemon and
  drops every later one. For a handle that came without a response, what the daemon has
  received for the delivery is therefore the first of the responses the reader has called:
  a \<^verbatim>\<open>Requeue\<close> makes the delivery redeliverable, a \<^verbatim>\<open>Finish\<close> ends it for good.
  \<open>stops_due\<close> is the consumer that a \<^verbatim>\<open>disconnect\<close> has to stop, if there is one.
\<close>

definition forwarded :: "nsq_Message \<Rightarrow> response option" where
  "forwarded msg = (case responses msg of [] \<Rightarrow> None | rsp # _ \<Rightarrow> Some rsp)"

definition stops_due :: "nsqReader \<Rightarrow> nat list" where
  "stops_due n = (case consumer n of None \<Rightarrow> [] | Some c \<Rightarrow> [c])"

subsection \<open>The Once and the channel\<close>

text \<open>
  The channel is closed by the body of the Once and by nothing else: in every state that a
  history of calls reaches from a new reader, the channel is closed exactly when the Once
  is done.
\<close>

definition once_guards :: "nsqReader \<Rightarrow> bool" where
  "once_guards n \<longleftrightarrow> (interruptChan_closed n \<longleftrightarrow> interruptOnce_done n)"

subsection \<open>Concrete inputs\<close>

text \<open>
  Messages with given metadata and content; the interpolation
  \<^verbatim>\<open>${! meta("k").or("") }\<close>, the value of a metadata key or the empty string; a
  mapping that deletes every message; an upload that always succeeds and one that panics
  for a client without a bucket URL; a URL parser that fails; a COS output whose directory and path are the metadata \<^verbatim>\<open>dir\<close> and
  \<^verbatim>\<open>name\<close>; and two batches of two messages, of which only one message has them.
\<close>

definition msg_with :: "(string \<times> string) list \<Rightarrow> string \<Rightarrow> Message" where
  "msg_with md s = \<lparr>AsBytes = Inr s, MetaData = md, Error = None\<rparr>"

definition meta_or_empty :: "string \<Rightarrow> Message \<Rightarrow> string" where
  "meta_or_empty k m = (case map_of (MetaData m) k of None \<Rightarrow> [] | Some v \<Rightarrow> v)"

definition delete_all :: "Message list \<Rightarrow> nat \<Rightarrow> error \<times> Message + Message option" where
  "delete_all batch i = Inr None"

definition put_accepts :: "cosClient \<Rightarrow> string \<Rightarrow> string \<Rightarrow> error option outcome" where
  "put_accepts cl key body = Returns None"

definition put_needs_url :: "cosClient \<Rightarrow> string \<Rightarrow> string \<Rightarrow> error option outcome" where
  "put_needs_url cl key body = (if BucketURL cl = None then Panic else Returns None)"

definition parse_fails :: "string \<Rightarrow> error + URL" where
  "parse_fails s = Inl (ExternalError ''invalid URL'')"

definition cos_by_meta :: cosOutput where
  "cos_by_meta =
     \<lparr>url = ''https://bucket.cos.example'', secretId = ''id'', secretKey = ''key'',
      directory = meta_or_empty ''dir'', path = meta_or_empty ''name'',
      client = Some \<lparr>BucketURL = Some (URL ''https://bucket.cos.example''),
                     SecretID = ''id'', SecretKey = ''key''\<rparr>\<rparr>"

definition plain_then_named :: "Message list" where
  "plain_then_named = [msg_with [] ''a'', msg_with [(''dir'', ''d/''), (''name'', ''f'')] ''b'']"

definition named_then_plain :: "Message list" where
  "named_then_plain = [msg_with [(''dir'', ''d/''), (''name'', ''f'')] ''a'', msg_with [] ''b'']"

text \<open>
  A resource file \<^verbatim>\<open>res.yaml\<close> that declared the cache \<^verbatim>\<open>old\<close> when it was
  loaded and now declares one resource of each category, the processor \<^verbatim>\<open>P\<close> using
  the cache \<^verbatim>\<open>C\<close>; surroundings in which every component starts, in which no
  processor can be constructed, and in which the linter has one finding; and the reader
  and the manager after the first load.
\<close>

definition cfg :: "string \<Rightarrow> string \<Rightarrow> Config" where
  "cfg l s = \<lparr>Label = l, Settings = s\<rparr>"

definition old_conf :: ResourceConfig where
  "old_conf =
     \<lparr>ResourceInputs = [], ResourceProcessors = [], ResourceOutputs = [],
      ResourceCaches = [cfg ''old'' ''memory''], ResourceRateLimits = []\<rparr>"

definition new_conf :: ResourceConfig where
  "new_conf =
     \<lparr>ResourceInputs = [cfg ''in'' ''stdin''],
      ResourceProcessors = [cfg ''P'' ''cache: C''],
      ResourceOutputs = [cfg ''out'' ''stdout''],
      ResourceCaches = [cfg ''C'' ''memory''],
      ResourceRateLimits = [cfg ''rl'' ''local'']\<rparr>"

definition new_orders :: range_orders where
  "new_orders =
     \<lparr>rateLimits_order = [''rl''], caches_order = [''C''], processors_order = [''P''],
      inputs_order = [''in''], outputs_order = [''out'']\<rparr>"

definition processors_fail ::
  "(category \<times> string \<rightharpoonup> Config) \<Rightarrow> category \<Rightarrow> string \<Rightarrow> Config \<Rightarrow> error option" where
  "processors_fail reg cat k v =
     (if cat = Processor then Some (ExternalError ''failed to construct'') else None)"

definition all_construct ::
  "(category \<times> string \<rightharpoonup> Config) \<Rightarrow> category \<Rightarrow> string \<Rightarrow> Config \<Rightarrow> error option" where
  "all_construct reg cat k v = None"

definition read_file :: "string \<Rightarrow> error + (string \<times> string list)" where
  "read_file p = Inr (''cache_resources: ...'', [])"

definition parse_yaml :: "string \<Rightarrow> error + yaml_Node" where
  "parse_yaml b = Inr (yaml_Node b)"

definition no_lints :: "yaml_Node \<Rightarrow> string list" where
  "no_lints node = []"

definition one_lint :: "yaml_Node \<Rightarrow> string list" where
  "one_lint node = [''(3,1) field foo not recognised'']"

definition decode_new :: "yaml_Node \<Rightarrow> error + ResourceConfig" where
  "decode_new node = Inr new_conf"

definition ext_processor_fails :: externals where
  "ext_processor_fails =
     \<lparr>ReadFileEnvSwap = read_file, yaml_Unmarshal = parse_yaml, LintYAML = no_lints,
      Decode = decode_new, start_component = processors_fail, time_Now = 1,
      shared_loopvar = False\<rparr>"

definition ext_all_construct :: externals where
  "ext_all_construct =
     \<lparr>ReadFileEnvSwap = read_file, yaml_Unmarshal = parse_yaml, LintYAML = no_lints,
      Decode = decode_new, start_component = all_construct, time_Now = 1,
      shared_loopvar = False\<rparr>"

definition ext_one_lint :: externals where
  "ext_one_lint =
     \<lparr>ReadFileEnvSwap = read_file, yaml_Unmarshal = parse_yaml, LintYAML = one_lint,
      Decode = decode_new, start_component = all_construct, time_Now = 1,
      shared_loopvar = False\<rparr>"

definition reader0 :: Reader where
  "reader0 = \<lparr>resourceFileInfo = [''res.yaml'' \<mapsto> resInfoFromConfig False 0 old_conf]\<rparr>"

definition manager0 :: manager where
  "manager0 =
     \<lparr>registry = [(Cache, ''old'') \<mapsto> cfg ''old'' ''memory''], stores = [], logged = []\<rparr>"

text \<open>
  A reader made from a configuration without TLS, over a store of messages that have no
  response yet; the history in which message 0 is delivered and acknowledged before the
  reader is closed and read once more, and the one in which it is acknowledged only
  after that; the steps of two concurrent calls of
  \<^verbatim>\<open>Close\<close>; and the reader after a delivery and a \<^verbatim>\<open>Close\<close>.
\<close>

definition tls_unused :: "error + string" where
  "tls_unused = Inl (ExternalError ''TLS is not configured'')"

definition nsq_conf :: NSQConfig where
  "nsq_conf = \<lparr>Addresses = [''a:4150,b:4150''], LookupAddresses = [], TLS_Enabled = False\<rparr>"

definition unanswered :: "nat \<Rightarrow> nsq_Message" where
  "unanswered m = \<lparr>Body = ''payload'', responses = []\<rparr>"

definition fresh_reader :: nsqReader where
  "fresh_reader =
     \<lparr>consumer = None, unAckMsgs = [], tlsConf = None, addresses = [''a:4150'', ''b:4150''],
      lookupAddresses = [], conf = nsq_conf, interruptChan_closed = False,
      interruptOnce_done = False, msgs = unanswered, stopped = []\<rparr>"

definition acked_then_closed :: "call list" where
  "acked_then_closed =
     [CallConnect (Connects 7), CallReadBatch (RecvMessage 0), CallAck 0 None, CallClose,
      CallReadBatch Interrupt]"


definition two_closes_interleaved :: "close_step list" where
  "two_closes_interleaved = [OnceDo, OnceDo, Disconnect, Disconnect]"

definition delivered_then_closed :: nsqReader where
  "delivered_then_closed =
     fresh_reader\<lparr>unAckMsgs := [0], interruptChan_closed := True, interruptOnce_done := True\<rparr>"

section \<open>The mutation processor: a batch may vanish\<close>

lemma mutate_from_all_deleted:
  "(\<And>j. i \<le> j \<Longrightarrow> j < length batch \<Longrightarrow> mutate batch j = Inr None) \<Longrightarrow>
   mutate_from mutate batch i newBatch lg = (newBatch, lg)"
proof (induction "length batch - i" arbitrary: i)
  case 0
  then show ?case by simp
next
  case (Suc n)
  from Suc.hyps(2) have lt: "i < length batch" by arith
  have here: "mutate batch i = Inr None" using Suc.prems lt by simp
  have rest: "mutate_from mutate batch (Suc i) newBatch lg = (newBatch, lg)"
    using Suc.hyps(1) [of "Suc i"] Suc.hyps(2) Suc.prems by simp
  show ?case using lt here rest by simp
qed

text \<open>
  C8. When the mapping deletes every message of the batch, \<^verbatim>\<open>ProcessBatch\<close> returns no
  output batch and a nil error, and logs nothing: the empty result is not an error.
\<close>

theorem ProcessBatch_all_deleted:
  assumes "\<forall>i < length batch. mutate batch i = Inr None"
  shows "mutationProc_ProcessBatch mutate batch = ([], None, [])"
  using mutate_from_all_deleted [of 0 batch mutate "[]" "[]"] assms
  by (simp add: mutationProc_ProcessBatch_def)

theorem ProcessBatch_all_deleted_witness:
  "length plain_then_named = 2
   \<and> delete_all plain_then_named 0 = Inr None
   \<and> delete_all plain_then_named 1 = Inr None
   \<and> mutationProc_ProcessBatch delete_all plain_then_named = ([], None, [])"
  using ProcessBatch_all_deleted [of plain_then_named delete_all]
  by (simp add: delete_all_def plain_then_named_def)

section \<open>The COS output\<close>

text \<open>
  C9. \<^verbatim>\<open>Connect\<close> returns nil whatever the configuration and whatever \<^verbatim>\<open>url.Parse\<close>
  answers: the parse error is dropped, and the client is built with the parsed URL, or
  with none when the URL did not parse.
\<close>

theorem Connect_returns_nil:
  "fst (cosOutput_Connect url_Parse c) = None \<and>
   client (snd (cosOutput_Connect url_Parse c)) =
     Some \<lparr>BucketURL = (case url_Parse (url c) of Inl err \<Rightarrow> None | Inr u \<Rightarrow> Some u),
           SecretID = secretId c, SecretKey = secretKey c\<rparr>"
  by (simp add: cosOutput_Connect_def Let_def)

lemma Connect_with_unparsable_url:
  "cosOutput_Connect parse_fails cos_by_meta =
     (None, cos_by_meta\<lparr>client := Some \<lparr>BucketURL = None, SecretID = ''id'', SecretKey = ''key''\<rparr>\<rparr>)"
  by (simp add: cosOutput_Connect_def parse_fails_def cos_by_meta_def)

lemma WriteBatch_after_unparsable_url:
  "cosOutput_WriteBatch put_needs_url (snd (cosOutput_Connect parse_fails cos_by_meta))
     named_then_plain = PutPanic [(''d/f'', [CHR ''a'', CHR 0x0A, CHR ''b'', CHR 0x0A])]"
  by (simp add: cosOutput_WriteBatch_def cosOutput_Connect_def parse_fails_def cos_by_meta_def
      named_then_plain_def msg_with_def meta_or_empty_def put_needs_url_def)

lemma gather_eq:
  "gather c batch key data =
     (case first_error batch of
        Some err \<Rightarrow> Inl err
      | None \<Rightarrow> Inr (if key = [] then object_key c batch else key, data @ object_body batch))"
proof (induction batch arbitrary: key data)
  case Nil
  then show ?case by (simp add: object_body_def)
next
  case (Cons m ms)
  show ?case
  proof (cases "AsBytes m")
    case (Inl err)
    then show ?thesis by (simp add: Let_def)
  next
    case (Inr content)
    then show ?thesis
      by (simp add: Cons.IH Let_def object_body_def split: option.splits)
  qed
qed

lemma first_error_None_iff:
  "first_error batch = None \<longleftrightarrow> (\<forall>m \<in> set batch. \<exists>content. AsBytes m = Inr content)"
  by (induction batch) (auto split: sum.splits)

text \<open>
  C10, as the claim words it, fails: the key is not always that of the first message. In
  the batch \<open>plain_then_named\<close> the first message interpolates to the empty string, the
  test \<^verbatim>\<open>key == ""\<close> holds again at the second message, and the object is stored under
  the second message's key.
\<close>

theorem WriteBatch_key_not_of_first_message:
  "cosOutput_WriteBatch put_accepts cos_by_meta plain_then_named =
     Returned None [(''d/f'', [CHR ''a'', CHR 0x0A, CHR ''b'', CHR 0x0A])]
   \<and> directory cos_by_meta (hd plain_then_named) @ path cos_by_meta (hd plain_then_named) = []"
  by (simp add: cosOutput_WriteBatch_def cos_by_meta_def plain_then_named_def msg_with_def
      meta_or_empty_def put_accepts_def)

text \<open>
  C10, amended. When the bytes of some message cannot be read, \<^verbatim>\<open>WriteBatch\<close> returns
  the first such error and uploads nothing. Otherwise it makes one \<^verbatim>\<open>Put\<close>, whose
  error or panic is that of the call: the body
  is the bytes of every message, a newline after each, and the key is the interpolated
  directory and path of the first message for which they are not empty, which is the
  first message of the batch whenever its own are not empty.
\<close>

theorem WriteBatch_one_object:
  "cosOutput_WriteBatch put c batch =
     (case first_error batch of
        Some err \<Rightarrow> Returned (Some err) []
      | None \<Rightarrow>
          (case client c of
             None \<Rightarrow> NilClientPanic
           | Some cl \<Rightarrow>
               (case put cl (object_key c batch) (object_body batch) of
                  Panic \<Rightarrow> PutPanic [(object_key c batch, object_body batch)]
                | Returns err \<Rightarrow> Returned err [(object_key c batch, object_body batch)])))
   \<and> (batch \<noteq> [] \<and> directory c (hd batch) @ path c (hd batch) \<noteq> [] \<longrightarrow>
        object_key c batch = directory c (hd batch) @ path c (hd batch))"
proof
  show "cosOutput_WriteBatch put c batch =
     (case first_error batch of
        Some err \<Rightarrow> Returned (Some err) []
      | None \<Rightarrow>
          (case client c of
             None \<Rightarrow> NilClientPanic
           | Some cl \<Rightarrow>
               (case put cl (object_key c batch) (object_body batch) of
                  Panic \<Rightarrow> PutPanic [(object_key c batch, object_body batch)]
                | Returns err \<Rightarrow> Returned err [(object_key c batch, object_body batch)])))"
    by (simp add: cosOutput_WriteBatch_def gather_eq split: option.splits outcome.splits)
  show "batch \<noteq> [] \<and> directory c (hd batch) @ path c (hd batch) \<noteq> [] \<longrightarrow>
        object_key c batch = directory c (hd batch) @ path c (hd batch)"
    by (cases batch) auto
qed

theorem WriteBatch_one_object_witness:
  "named_then_plain \<noteq> [] \<and>
   directory cos_by_meta (hd named_then_plain) @ path cos_by_meta (hd named_then_plain) \<noteq> [] \<and>
   cosOutput_WriteBatch put_accepts cos_by_meta named_then_plain =
     Returned None [(''d/f'', [CHR ''a'', CHR 0x0A, CHR ''b'', CHR 0x0A])]"
  using WriteBatch_one_object [of put_accepts cos_by_meta named_then_plain]
  by (simp add: cos_by_meta_def named_then_plain_def msg_with_def
      meta_or_empty_def put_accepts_def object_body_def)

section \<open>The resource reader\<close>

lemma logf_fields [simp]:
  "registry (logf l mgr) = registry mgr" "stores (logf l mgr) = stores mgr"
  by (simp_all add: logf_def)

lemma fold_logf_fields [simp]:
  "registry (fold (\<lambda>lint. logf (f lint)) ls mgr) = registry mgr"
  "stores (fold (\<lambda>lint. logf (f lint)) ls mgr) = stores mgr"
  by (induction ls arbitrary: mgr) simp_all

lemma store_each_plan:
  "store_each ext cat kvs mgr = store_in_order ext (map (Pair cat) kvs) mgr"
  by (induction kvs arbitrary: mgr) (auto split: prod.splits option.splits)

lemma store_in_order_append:
  "store_in_order ext (xs @ ys) mgr =
     (case store_in_order ext xs mgr of
        (False, mgr') \<Rightarrow> (False, mgr')
      | (True, mgr') \<Rightarrow> store_in_order ext ys mgr')"
  by (induction xs arbitrary: mgr) (auto split: prod.splits option.splits bool.splits)

lemma applyChanges_plan:
  "applyChanges ext ord i mgr = store_in_order ext (store_plan ord i) mgr"
  by (simp add: applyChanges_def store_plan_def store_each_plan store_in_order_append
      split: prod.splits bool.splits)

lemma store_in_order_ok:
  "store_in_order ext plan mgr = (True, mgr') \<Longrightarrow>
   all_start ext plan (registry mgr) \<and> registry mgr' = put_all plan (registry mgr) \<and>
   stores mgr' = stores mgr @ map store_key plan"
proof (induction plan arbitrary: mgr)
  case Nil
  then show ?case by simp
next
  case (Cons e plan)
  obtain cat k v where e: "e = (cat, k, v)" by (cases e) auto
  show ?case
  proof (cases "start_component ext (registry mgr) cat k v")
    case (Some err)
    with Cons.prems e show ?thesis by (simp add: Store_def)
  next
    case None
    let ?m = "logf (UpdatedResource k)
                (mgr\<lparr>registry := (registry mgr)((cat, k) \<mapsto> v), stores := stores mgr @ [(cat, k)]\<rparr>)"
    from Cons.prems e None have "store_in_order ext plan ?m = (True, mgr')"
      by (simp add: Store_def)
    from Cons.IH [OF this] have ih:
      "all_start ext plan (registry ?m)" "registry mgr' = put_all plan (registry ?m)"
      "stores mgr' = stores ?m @ map store_key plan"
      by blast+
    have rm: "registry ?m = (registry mgr)((cat, k) \<mapsto> v)" by simp
    have sm: "stores ?m = stores mgr @ [(cat, k)]" by simp
    show ?thesis
      using ih None unfolding rm sm e by (simp add: store_key_def)
  qed
qed

lemma store_in_order_failed:
  "store_in_order ext plan mgr = (False, mgr') \<Longrightarrow>
   \<exists>pre cat k v post err.
     plan = pre @ (cat, k, v) # post \<and> all_start ext pre (registry mgr) \<and>
     start_component ext (put_all pre (registry mgr)) cat k v = Some err \<and>
     registry mgr' = put_all pre (registry mgr) \<and>
     stores mgr' = stores mgr @ map store_key pre @ [(cat, k)]"
proof (induction plan arbitrary: mgr)
  case Nil
  then show ?case by simp
next
  case (Cons e plan)
  obtain cat k v where e: "e = (cat, k, v)" by (cases e) auto
  show ?case
  proof (cases "start_component ext (registry mgr) cat k v")
    case (Some err)
    with Cons.prems e have "registry mgr' = registry mgr" "stores mgr' = stores mgr @ [(cat, k)]"
      by (auto simp: Store_def)
    with Some e have
      "e # plan = [] @ (cat, k, v) # plan \<and> all_start ext [] (registry mgr) \<and>
       start_component ext (put_all [] (registry mgr)) cat k v = Some err \<and>
       registry mgr' = put_all [] (registry mgr) \<and>
       stores mgr' = stores mgr @ map store_key [] @ [(cat, k)]"
      by simp
    then show ?thesis by blast
  next
    case None
    let ?m = "logf (UpdatedResource k)
                (mgr\<lparr>registry := (registry mgr)((cat, k) \<mapsto> v), stores := stores mgr @ [(cat, k)]\<rparr>)"
    from Cons.prems e None have rest: "store_in_order ext plan ?m = (False, mgr')"
      by (simp add: Store_def)
    have rm: "registry ?m = (registry mgr)((cat, k) \<mapsto> v)" by simp
    have sm: "stores ?m = stores mgr @ [(cat, k)]" by simp
    from Cons.IH [OF rest] obtain pre c' k' v' post err where
      p: "plan = pre @ (c', k', v') # post" and
      a: "all_start ext pre (registry ?m)" and
      f: "start_component ext (put_all pre (registry ?m)) c' k' v' = Some err" and
      rg: "registry mgr' = put_all pre (registry ?m)" and
      st: "stores mgr' = stores ?m @ map store_key pre @ [(c', k')]"
      by blast
    note a = a [unfolded rm] and f = f [unfolded rm] and rg = rg [unfolded rm]
      and st = st [unfolded sm]
    have "e # plan = (e # pre) @ (c', k', v') # post \<and> all_start ext (e # pre) (registry mgr) \<and>
       start_component ext (put_all (e # pre) (registry mgr)) c' k' v' = Some err \<and>
       registry mgr' = put_all (e # pre) (registry mgr) \<and>
       stores mgr' = stores mgr @ map store_key (e # pre) @ [(c', k')]"
      using p a f rg st e None by (simp add: store_key_def)
    then show ?thesis by blast
  qed
qed

lemma store_in_order_first_failure:
  assumes "all_start ext pre (registry mgr)"
    and "start_component ext (put_all pre (registry mgr)) cat k v = Some err"
  shows "\<exists>mgr'. store_in_order ext (pre @ (cat, k, v) # post) mgr = (False, mgr') \<and>
     registry mgr' = put_all pre (registry mgr) \<and>
     stores mgr' = stores mgr @ map store_key pre @ [(cat, k)]"
  using assms
proof (induction pre arbitrary: mgr)
  case Nil
  then show ?case by (simp add: Store_def)
next
  case (Cons e pre)
  obtain c' k' v' where e: "e = (c', k', v')" by (cases e) auto
  let ?m = "logf (UpdatedResource k')
              (mgr\<lparr>registry := (registry mgr)((c', k') \<mapsto> v'), stores := stores mgr @ [(c', k')]\<rparr>)"
  have rm: "registry ?m = (registry mgr)((c', k') \<mapsto> v')" by simp
  have sm: "stores ?m = stores mgr @ [(c', k')]" by simp
  from Cons.prems e have ok: "start_component ext (registry mgr) c' k' v' = None"
    and a: "all_start ext pre (registry ?m)"
    and f: "start_component ext (put_all pre (registry ?m)) cat k v = Some err"
    unfolding rm by simp_all
  from Cons.IH [OF a f] obtain mgr' where r:
    "store_in_order ext (pre @ (cat, k, v) # post) ?m = (False, mgr')"
    "registry mgr' = put_all pre (registry ?m)"
    "stores mgr' = stores ?m @ map store_key pre @ [(cat, k)]"
    by blast
  have "store_in_order ext ((e # pre) @ (cat, k, v) # post) mgr = (False, mgr')"
    using r(1) e ok by (simp add: Store_def)
  moreover have "registry mgr' = put_all (e # pre) (registry mgr)"
    using r(2) unfolding rm e by simp
  moreover have "stores mgr' = stores mgr @ map store_key (e # pre) @ [(cat, k)]"
    using r(3) unfolding sm e by (simp add: store_key_def)
  ultimately show ?case by blast
qed

lemma fold_upd_dom:
  "dom (fold (\<lambda>c m. m(Label c \<mapsto> c)) cs m0) = dom m0 \<union> Label ` set cs"
  by (induction cs arbitrary: m0) auto

lemma dom_index_by_label: "dom (index_by_label sh cs) = Label ` set cs"
proof -
  have "dom (\<lambda>k. map_option (\<lambda>_. last cs) (fold (\<lambda>c m. m(Label c \<mapsto> c)) cs Map.empty k))
        = dom (fold (\<lambda>c m. m(Label c \<mapsto> c)) cs Map.empty)"
    by (auto simp: dom_def)
  then show ?thesis
    by (simp add: index_by_label_def Let_def fold_upd_dom)
qed

lemma index_by_label_SomeD: "index_by_label sh cs k = Some y \<Longrightarrow> k \<in> Label ` set cs"
  using dom_index_by_label [of sh cs] by auto

lemma entries_keys: "(k, v) \<in> set (entries m ks) \<Longrightarrow> k \<in> dom m"
  by (induction ks) (auto split: option.splits)

lemma entries_covers:
  "range_order m ks \<Longrightarrow> k \<in> dom m \<Longrightarrow> \<exists>v. (k, v) \<in> set (entries m ks)"
proof -
  have "k \<in> set ks \<Longrightarrow> k \<in> dom m \<Longrightarrow> \<exists>v. (k, v) \<in> set (entries m ks)"
    by (induction ks) (auto split: option.splits)
  then show "range_order m ks \<Longrightarrow> k \<in> dom m \<Longrightarrow> \<exists>v. (k, v) \<in> set (entries m ks)"
    by (simp add: range_order_def)
qed

lemma store_plan_declared:
  assumes "e \<in> set (store_plan ord (resInfoFromConfig sh now cf))"
  shows "fst (snd e) \<in> declared cf (fst e)"
  using assms
  by (auto simp: store_plan_def resInfoFromConfig_def dest!: entries_keys index_by_label_SomeD)

lemma put_all_other: "ck \<notin> store_key ` set plan \<Longrightarrow> put_all plan reg ck = reg ck"
  by (induction plan arbitrary: reg) (auto simp: store_key_def)

lemma put_all_keeps: "reg ck \<noteq> None \<Longrightarrow> put_all plan reg ck \<noteq> None"
  by (induction plan arbitrary: reg) auto

lemma sorted_same_rank: "sorted (map (category_rank \<circ> fst \<circ> Pair c) kvs)"
  by (induction kvs) auto

lemma store_plan_sorted: "sorted (map (category_rank \<circ> fst) (store_plan ord i))"
  by (auto simp: store_plan_def sorted_append sorted_same_rank)

lemma store_in_order_prefix:
  "\<exists>calls. stores (snd (store_in_order ext plan mgr)) = stores mgr @ calls \<and>
     prefix calls (map store_key plan)"
proof (cases "store_in_order ext plan mgr")
  case (Pair ok mgr')
  show ?thesis
  proof (cases ok)
    case True
    with Pair store_in_order_ok [of ext plan mgr mgr'] show ?thesis by simp
  next
    case False
    with Pair have "store_in_order ext plan mgr = (False, mgr')" by simp
    from store_in_order_failed [OF this] obtain pre cat k v post where
      "plan = pre @ (cat, k, v) # post" "stores mgr' = stores mgr @ map store_key pre @ [(cat, k)]"
      by blast
    then have "stores mgr' = stores mgr @ map store_key (pre @ [(cat, k, v)])"
      "prefix (map store_key (pre @ [(cat, k, v)])) (map store_key plan)"
      by (simp_all add: store_key_def)
    with Pair show ?thesis by auto
  qed
qed

lemma store_in_order_registry:
  "\<exists>done. registry (snd (store_in_order ext plan mgr)) = put_all done (registry mgr) \<and>
     prefix done plan"
proof (cases "store_in_order ext plan mgr")
  case (Pair ok mgr')
  show ?thesis
  proof (cases ok)
    case True
    with Pair store_in_order_ok [of ext plan mgr mgr'] show ?thesis by auto
  next
    case False
    with Pair have "store_in_order ext plan mgr = (False, mgr')" by simp
    from store_in_order_failed [OF this] obtain pre cat k v post where
      "plan = pre @ (cat, k, v) # post" "registry mgr' = put_all pre (registry mgr)"
      by blast
    with Pair show ?thesis by auto
  qed
qed

lemma new_stores_append: "stores mgr' = stores mgr @ calls \<Longrightarrow> new_stores mgr mgr' = calls"
  by (simp add: new_stores_def)

lemma prefix_sorted_map: "prefix xs ys \<Longrightarrow> sorted (map f ys) \<Longrightarrow> sorted (map f xs)"
  by (auto simp: prefix_def sorted_append)

lemma react_aborts:
  assumes "resourceFileInfo r rpath = None \<or> (\<exists>err. snd (readResource ext rpath) = Inl err)
     \<or> (strict \<and> fst (readResource ext rpath) \<noteq> [])"
  shows "fst (reactResourceUpdate ext ord strict rpath r mgr) = True"
    and "fst (snd (reactResourceUpdate ext ord strict rpath r mgr)) = r"
    and "registry (snd (snd (reactResourceUpdate ext ord strict rpath r mgr))) = registry mgr"
    and "stores (snd (snd (reactResourceUpdate ext ord strict rpath r mgr))) = stores mgr"
  using assms
  by (auto simp: reactResourceUpdate_def Let_def split: prod.splits sum.splits bool.splits)

lemma react_applies:
  assumes "resourceFileInfo r rpath \<noteq> None" and "readResource ext rpath = (lints, Inr cf)"
    and "\<not> (strict \<and> lints \<noteq> [])"
  shows "\<exists>mgr2. registry mgr2 = registry mgr \<and> stores mgr2 = stores mgr \<and>
     reactResourceUpdate ext ord strict rpath r mgr =
       (case store_in_order ext
               (store_plan ord (resInfoFromConfig (shared_loopvar ext) (time_Now ext) cf)) mgr2 of
          (False, mgr3) \<Rightarrow> (False, r, mgr3)
        | (True, mgr3) \<Rightarrow>
            (True,
             r\<lparr>resourceFileInfo := (resourceFileInfo r)
                  (rpath \<mapsto> resInfoFromConfig (shared_loopvar ext) (time_Now ext) cf)\<rparr>,
             mgr3))"
proof -
  let ?mgr2 = "fold (\<lambda>lint. logf (LintLine lint)) lints (logf (ConfigUpdated rpath) mgr)"
  have "registry ?mgr2 = registry mgr" "stores ?mgr2 = stores mgr" by simp_all
  moreover have "reactResourceUpdate ext ord strict rpath r mgr =
       (case store_in_order ext
               (store_plan ord (resInfoFromConfig (shared_loopvar ext) (time_Now ext) cf)) ?mgr2 of
          (False, mgr3) \<Rightarrow> (False, r, mgr3)
        | (True, mgr3) \<Rightarrow>
            (True,
             r\<lparr>resourceFileInfo := (resourceFileInfo r)
                  (rpath \<mapsto> resInfoFromConfig (shared_loopvar ext) (time_Now ext) cf)\<rparr>,
             mgr3))"
    using assms
    by (auto simp: reactResourceUpdate_def Let_def applyChanges_plan split: prod.splits bool.splits)
  ultimately show ?thesis by blast
qed

text \<open>
  C2. Take an update that gets as far as applying: the path is known, the file is read and
  is not rejected for its lints. When the Stores of \<open>pre\<close>, made in order, all succeed
  and the next Store of the file fails, \<^verbatim>\<open>reactResourceUpdate\<close> returns \<open>False\<close>,
  the failing call is the last Store call made (none of \<open>post\<close> is tried), the registry
  holds what the Stores of \<open>pre\<close> put there (nothing is rolled back), and the reader,
  with the record of the file, is the one it was.
\<close>

theorem reactResourceUpdate_Store_failure:
  assumes known: "resourceFileInfo r rpath \<noteq> None"
    and parsed: "readResource ext rpath = (lints, Inr newResConf)"
    and accepted: "\<not> (strict \<and> lints \<noteq> [])"
    and plan: "store_plan ord (resInfoFromConfig (shared_loopvar ext) (time_Now ext) newResConf) =
                 pre @ (cat, k, v) # post"
    and before: "all_start ext pre (registry mgr)"
    and fails: "start_component ext (put_all pre (registry mgr)) cat k v = Some err"
  shows "fst (reactResourceUpdate ext ord strict rpath r mgr) = False \<and>
     fst (snd (reactResourceUpdate ext ord strict rpath r mgr)) = r \<and>
     stores (snd (snd (reactResourceUpdate ext ord strict rpath r mgr))) =
       stores mgr @ map store_key pre @ [(cat, k)] \<and>
     registry (snd (snd (reactResourceUpdate ext ord strict rpath r mgr))) =
       put_all pre (registry mgr)"
proof -
  from react_applies [OF known parsed accepted, where ord = ord and mgr = mgr] obtain mgr2 where
    m2: "registry mgr2 = registry mgr" "stores mgr2 = stores mgr" and
    eq: "reactResourceUpdate ext ord strict rpath r mgr =
       (case store_in_order ext (pre @ (cat, k, v) # post) mgr2 of
          (False, mgr3) \<Rightarrow> (False, r, mgr3)
        | (True, mgr3) \<Rightarrow>
            (True,
             r\<lparr>resourceFileInfo := (resourceFileInfo r)
                  (rpath \<mapsto> resInfoFromConfig (shared_loopvar ext) (time_Now ext) newResConf)\<rparr>,
             mgr3))"
    unfolding plan by blast
  from before fails have "all_start ext pre (registry mgr2)"
    "start_component ext (put_all pre (registry mgr2)) cat k v = Some err"
    by (simp_all add: m2)
  from store_in_order_first_failure [OF this, where post = post] obtain mgr' where
    "store_in_order ext (pre @ (cat, k, v) # post) mgr2 = (False, mgr')"
    "registry mgr' = put_all pre (registry mgr2)"
    "stores mgr' = stores mgr2 @ map store_key pre @ [(cat, k)]"
    by blast
  then show ?thesis by (simp add: eq m2)
qed

text \<open>
  C4. In strict mode, when reading the file gives at least one lint, the update makes no
  Store call and leaves the registry and the reader, with the record of the file, as
  they were.
\<close>

theorem strict_lints_reject:
  assumes "fst (readResource ext rpath) \<noteq> []"
  shows "fst (reactResourceUpdate ext ord True rpath r mgr) = True \<and>
     fst (snd (reactResourceUpdate ext ord True rpath r mgr)) = r \<and>
     registry (snd (snd (reactResourceUpdate ext ord True rpath r mgr))) = registry mgr \<and>
     stores (snd (snd (reactResourceUpdate ext ord True rpath r mgr))) = stores mgr"
  using react_aborts [where r = r and rpath = rpath and ext = ext and strict = True and ord = ord and mgr = mgr] assms by simp

text \<open>
  C3. The Store calls that \<^verbatim>\<open>applyChanges\<close> adds are in the order rate limits, caches,
  processors, inputs, outputs, whatever order the runtime picks inside a category and
  wherever a failure stops them; and when the file declares the cache \<open>C\<close>, a Store call
  for a processor \<open>P\<close> comes after the Store call for \<open>C\<close>.
\<close>

theorem applyChanges_category_order:
  "stores (snd (applyChanges ext ord i mgr)) =
     stores mgr @ new_stores mgr (snd (applyChanges ext ord i mgr))
   \<and> sorted (map (category_rank \<circ> fst) (new_stores mgr (snd (applyChanges ext ord i mgr))))
   \<and> (range_order (caches i) (caches_order ord) \<and> C \<in> dom (caches i) \<and>
        new_stores mgr (snd (applyChanges ext ord i mgr)) = before @ (Processor, P) # after
      \<longrightarrow> (Cache, C) \<in> set before)"
proof -
  let ?plan = "store_plan ord i"
  let ?new = "new_stores mgr (snd (applyChanges ext ord i mgr))"
  from store_in_order_prefix [where ext = ext and plan = "?plan" and mgr = mgr] obtain calls where
    st: "stores (snd (applyChanges ext ord i mgr)) = stores mgr @ calls" and
    pf: "prefix calls (map store_key ?plan)"
    by (auto simp: applyChanges_plan)
  have new: "?new = calls" using st by (rule new_stores_append)
  have rank: "category_rank \<circ> fst \<circ> store_key = category_rank \<circ> fst"
    by (auto simp: store_key_def)
  have srt: "sorted (map (category_rank \<circ> fst) calls)"
    using prefix_sorted_map [OF pf, where f = "category_rank \<circ> fst"] store_plan_sorted [of ord i]
    by (simp add: rank)
  have order: "(Cache, C) \<in> set before"
    if ro: "range_order (caches i) (caches_order ord)" and dom: "C \<in> dom (caches i)"
      and split: "calls = before @ (Processor, P) # after"
  proof -
    let ?early = "map store_key (map (Pair RateLimit) (entries (rateLimits i) (rateLimits_order ord)) @
       map (Pair Cache) (entries (caches i) (caches_order ord)))"
    let ?late = "map store_key (map (Pair Processor) (entries (processors i) (processors_order ord)) @
       map (Pair Input) (entries (inputs i) (inputs_order ord)) @
       map (Pair Output) (entries (outputs i) (outputs_order ord)))"
    have full: "map store_key ?plan = ?early @ ?late" by (simp add: store_plan_def)
    have noP: "(Processor, P) \<notin> set ?early" by (auto simp: store_key_def)
    from entries_covers [OF ro dom] obtain v where "(C, v) \<in> set (entries (caches i) (caches_order ord))"
      by blast
    then have inC: "(Cache, C) \<in> set ?early" by (force simp: store_key_def)
    from pf full have "prefix calls ?early \<or> (\<exists>us. calls = ?early @ us)"
      by (auto simp: prefix_append)
    moreover have "\<not> prefix calls ?early"
    proof
      assume "prefix calls ?early"
      then have "set calls \<subseteq> set ?early" by (rule set_mono_prefix)
      with split noP show False by auto
    qed
    ultimately obtain us where "calls = ?early @ us" by blast
    with inC have "(Cache, C) \<in> set calls" by auto
    moreover from srt split have "\<forall>x \<in> set after. 2 \<le> category_rank (fst x)"
      by (auto simp: sorted_append)
    then have "(Cache, C) \<notin> set after" by force
    ultimately show ?thesis using split by auto
  qed
  show ?thesis using st srt order by (simp add: new)
qed

text \<open>
  C7. An update removes no entry of the registry, and it makes a Store call for a label,
  or changes the entry of a label, only when the newly parsed file declares that label in
  that category: the entry of a label that the new file no longer declares stays as it is.
\<close>

theorem reactResourceUpdate_no_removal:
  "(\<forall>ck. registry mgr ck \<noteq> None \<longrightarrow>
       registry (snd (snd (reactResourceUpdate ext ord strict rpath r mgr))) ck \<noteq> None)
   \<and> (\<forall>cat k.
        ((cat, k) \<in> set (new_stores mgr (snd (snd (reactResourceUpdate ext ord strict rpath r mgr))))
         \<or> registry (snd (snd (reactResourceUpdate ext ord strict rpath r mgr))) (cat, k)
             \<noteq> registry mgr (cat, k))
        \<longrightarrow> (\<exists>lints cf. readResource ext rpath = (lints, Inr cf) \<and> k \<in> declared cf cat))"
proof (cases "resourceFileInfo r rpath = None \<or> (\<exists>err. snd (readResource ext rpath) = Inl err)
     \<or> (strict \<and> fst (readResource ext rpath) \<noteq> [])")
  case True
  from react_aborts(3,4) [OF True, where ord = ord and mgr = mgr] show ?thesis
    by (simp add: new_stores_def)
next
  case False
  then obtain lints cf where known: "resourceFileInfo r rpath \<noteq> None"
    and parsed: "readResource ext rpath = (lints, Inr cf)"
    and accepted: "\<not> (strict \<and> lints \<noteq> [])"
    by (cases "readResource ext rpath"; cases "snd (readResource ext rpath)") auto
  let ?plan = "store_plan ord (resInfoFromConfig (shared_loopvar ext) (time_Now ext) cf)"
  let ?mgr' = "snd (snd (reactResourceUpdate ext ord strict rpath r mgr))"
  from react_applies [OF known parsed accepted, where ord = ord and mgr = mgr] obtain mgr2 where
    m2: "registry mgr2 = registry mgr" "stores mgr2 = stores mgr" and
    eq: "reactResourceUpdate ext ord strict rpath r mgr =
       (case store_in_order ext ?plan mgr2 of
          (False, mgr3) \<Rightarrow> (False, r, mgr3)
        | (True, mgr3) \<Rightarrow>
            (True,
             r\<lparr>resourceFileInfo := (resourceFileInfo r)
                  (rpath \<mapsto> resInfoFromConfig (shared_loopvar ext) (time_Now ext) cf)\<rparr>,
             mgr3))"
    by blast
  have res: "?mgr' = snd (store_in_order ext ?plan mgr2)"
    unfolding eq by (cases "store_in_order ext ?plan mgr2") (simp split: bool.splits)
  from store_in_order_prefix [where ext = ext and plan = "?plan" and mgr = mgr2] obtain calls where
    st: "stores ?mgr' = stores mgr @ calls" and pf: "prefix calls (map store_key ?plan)"
    by (auto simp: res m2)
  from store_in_order_registry [where ext = ext and plan = "?plan" and mgr = mgr2] obtain stored where
    rg: "registry ?mgr' = put_all stored (registry mgr)" and pd: "prefix stored ?plan"
    by (auto simp: res m2)
  have new: "new_stores mgr ?mgr' = calls" using st by (rule new_stores_append)
  have decl: "k \<in> declared cf cat" if "(cat, k) \<in> store_key ` set ?plan" for cat k
    using that store_plan_declared [where ord = ord and sh = "shared_loopvar ext" and now = "time_Now ext" and cf = cf]
    by (auto simp: store_key_def)
  have keep: "registry ?mgr' ck \<noteq> None" if "registry mgr ck \<noteq> None" for ck
    using that by (simp add: rg put_all_keeps)
  have called: "k \<in> declared cf cat" if "(cat, k) \<in> set calls" for cat k
  proof -
    from pf have "set calls \<subseteq> set (map store_key ?plan)" by (rule set_mono_prefix)
    with that show ?thesis using decl by auto
  qed
  have changed: "k \<in> declared cf cat" if "registry ?mgr' (cat, k) \<noteq> registry mgr (cat, k)" for cat k
  proof (rule ccontr)
    assume "k \<notin> declared cf cat"
    then have "(cat, k) \<notin> store_key ` set ?plan" using decl by blast
    moreover from pd have "set stored \<subseteq> set ?plan" by (rule set_mono_prefix)
    ultimately have "(cat, k) \<notin> store_key ` set stored" by blast
    then have "put_all stored (registry mgr) (cat, k) = registry mgr (cat, k)"
      by (rule put_all_other)
    with that rg show False by simp
  qed
  show ?thesis using keep called changed parsed by (auto simp: new)
qed

lemmas ext_defs = read_file_def parse_yaml_def no_lints_def one_lint_def decode_new_def
  processors_fail_def all_construct_def

lemma new_plan:
  "store_plan new_orders (resInfoFromConfig False now new_conf) =
     [(RateLimit, ''rl'', cfg ''rl'' ''local''), (Cache, ''C'', cfg ''C'' ''memory'')] @
     (Processor, ''P'', cfg ''P'' ''cache: C'') #
     [(Input, ''in'', cfg ''in'' ''stdin''), (Output, ''out'', cfg ''out'' ''stdout'')]"
  by (simp add: store_plan_def new_orders_def resInfoFromConfig_def new_conf_def
      index_by_label_def cfg_def)

lemma ext_all_construct_fields:
  "start_component ext_all_construct = all_construct" "shared_loopvar ext_all_construct = False"
  by (simp_all add: ext_all_construct_def)

theorem reactResourceUpdate_Store_failure_witness:
  "resourceFileInfo reader0 ''res.yaml'' \<noteq> None
   \<and> readResource ext_processor_fails ''res.yaml'' = ([], Inr new_conf)
   \<and> fst (reactResourceUpdate ext_processor_fails new_orders True ''res.yaml'' reader0 manager0) = False
   \<and> fst (snd (reactResourceUpdate ext_processor_fails new_orders True ''res.yaml'' reader0 manager0))
       = reader0
   \<and> stores (snd (snd (reactResourceUpdate ext_processor_fails new_orders True ''res.yaml'' reader0 manager0)))
       = [(RateLimit, ''rl''), (Cache, ''C''), (Processor, ''P'')]
   \<and> registry (snd (snd (reactResourceUpdate ext_processor_fails new_orders True ''res.yaml'' reader0 manager0)))
       = [(Cache, ''old'') \<mapsto> cfg ''old'' ''memory'', (RateLimit, ''rl'') \<mapsto> cfg ''rl'' ''local'',
          (Cache, ''C'') \<mapsto> cfg ''C'' ''memory'']"
proof -
  have known: "resourceFileInfo reader0 ''res.yaml'' \<noteq> None"
    by (simp add: reader0_def)
  have parsed: "readResource ext_processor_fails ''res.yaml'' = ([], Inr new_conf)"
    by (simp add: readResource_def ext_processor_fails_def ext_defs)
  have accepted: "\<not> (True \<and> ([] :: string list) \<noteq> [])"
    by simp
  have plan: "store_plan new_orders
      (resInfoFromConfig (shared_loopvar ext_processor_fails) (time_Now ext_processor_fails) new_conf) =
     [(RateLimit, ''rl'', cfg ''rl'' ''local''), (Cache, ''C'', cfg ''C'' ''memory'')] @
     (Processor, ''P'', cfg ''P'' ''cache: C'') #
     [(Input, ''in'', cfg ''in'' ''stdin''), (Output, ''out'', cfg ''out'' ''stdout'')]"
    using new_plan by (simp add: ext_processor_fails_def)
  have before: "all_start ext_processor_fails
     [(RateLimit, ''rl'', cfg ''rl'' ''local''), (Cache, ''C'', cfg ''C'' ''memory'')]
     (registry manager0)"
    by (simp add: ext_processor_fails_def ext_defs)
  have fails: "start_component ext_processor_fails
     (put_all [(RateLimit, ''rl'', cfg ''rl'' ''local''), (Cache, ''C'', cfg ''C'' ''memory'')]
        (registry manager0))
     Processor ''P'' (cfg ''P'' ''cache: C'') = Some (ExternalError ''failed to construct'')"
    by (simp add: ext_processor_fails_def ext_defs)
  from reactResourceUpdate_Store_failure [OF known parsed accepted plan before fails]
  show ?thesis using known parsed
    by (simp add: store_key_def manager0_def)
qed

theorem strict_lints_reject_witness:
  "fst (readResource ext_one_lint ''res.yaml'') = [''res.yaml(3,1) field foo not recognised'']
   \<and> fst (reactResourceUpdate ext_one_lint new_orders True ''res.yaml'' reader0 manager0) = True
   \<and> fst (snd (reactResourceUpdate ext_one_lint new_orders True ''res.yaml'' reader0 manager0)) = reader0
   \<and> registry (snd (snd (reactResourceUpdate ext_one_lint new_orders True ''res.yaml'' reader0 manager0)))
       = registry manager0
   \<and> stores (snd (snd (reactResourceUpdate ext_one_lint new_orders True ''res.yaml'' reader0 manager0)))
       = []"
proof -
  have lints: "fst (readResource ext_one_lint ''res.yaml'') = [''res.yaml(3,1) field foo not recognised'']"
    by (simp add: readResource_def ext_one_lint_def ext_defs)
  then have "fst (readResource ext_one_lint ''res.yaml'') \<noteq> []" by simp
  from strict_lints_reject [OF this] show ?thesis using lints
    by (simp add: manager0_def)
qed

theorem applyChanges_category_order_witness:
  "range_order (caches (resInfoFromConfig False 1 new_conf)) (caches_order new_orders)
   \<and> ''C'' \<in> dom (caches (resInfoFromConfig False 1 new_conf))
   \<and> new_stores manager0
        (snd (applyChanges ext_all_construct new_orders (resInfoFromConfig False 1 new_conf) manager0))
      = [(RateLimit, ''rl''), (Cache, ''C'')] @ (Processor, ''P'') # [(Input, ''in''), (Output, ''out'')]
   \<and> (Cache, ''C'') \<in> set [(RateLimit, ''rl''), (Cache, ''C'')]"
proof -
  have ro: "range_order (caches (resInfoFromConfig False 1 new_conf)) (caches_order new_orders)"
    by (auto simp: range_order_def resInfoFromConfig_def new_conf_def new_orders_def
        index_by_label_def cfg_def)
  have dom: "''C'' \<in> dom (caches (resInfoFromConfig False 1 new_conf))"
    by (simp add: resInfoFromConfig_def new_conf_def index_by_label_def cfg_def)
  have new: "new_stores manager0
        (snd (applyChanges ext_all_construct new_orders (resInfoFromConfig False 1 new_conf) manager0))
      = [(RateLimit, ''rl''), (Cache, ''C'')] @ (Processor, ''P'') # [(Input, ''in''), (Output, ''out'')]"
    by (simp add: applyChanges_plan new_plan new_stores_def manager0_def Store_def logf_def
        ext_all_construct_fields ext_defs)
  from applyChanges_category_order [where ext = ext_all_construct and ord = new_orders
      and i = "resInfoFromConfig False 1 new_conf" and mgr = manager0 and C = "''C''"
      and P = "''P''" and before = "[(RateLimit, ''rl''), (Cache, ''C'')]"
      and after = "[(Input, ''in''), (Output, ''out'')]"]
  show ?thesis using ro dom new by simp
qed

theorem reactResourceUpdate_no_removal_witness:
  "registry manager0 (Cache, ''old'') \<noteq> None
   \<and> ''old'' \<notin> declared new_conf Cache
   \<and> fst (reactResourceUpdate ext_all_construct new_orders False ''res.yaml'' reader0 manager0) = True
   \<and> registry (snd (snd (reactResourceUpdate ext_all_construct new_orders False ''res.yaml''
        reader0 manager0))) (Cache, ''old'') = registry manager0 (Cache, ''old'')
   \<and> (Cache, ''old'') \<notin> set (new_stores manager0
        (snd (snd (reactResourceUpdate ext_all_construct new_orders False ''res.yaml'' reader0 manager0))))"
proof -
  have old: "registry manager0 (Cache, ''old'') \<noteq> None"
    by (simp add: manager0_def)
  have parsed: "readResource ext_all_construct ''res.yaml'' = ([], Inr new_conf)"
    by (simp add: readResource_def ext_all_construct_def ext_defs)
  have absent: "''old'' \<notin> declared new_conf Cache"
    by (simp add: new_conf_def cfg_def)
  have ok: "fst (reactResourceUpdate ext_all_construct new_orders False ''res.yaml'' reader0 manager0) = True"
    by (simp add: reactResourceUpdate_def reader0_def parsed applyChanges_plan Let_def
        ext_all_construct_fields new_plan Store_def ext_defs)
  let ?m = "snd (snd (reactResourceUpdate ext_all_construct new_orders False ''res.yaml''
        reader0 manager0))"
  have undeclared: "\<not> (\<exists>lints cf. readResource ext_all_construct ''res.yaml'' = (lints, Inr cf)
        \<and> ''old'' \<in> declared cf Cache)"
    using absent by (simp add: parsed)
  from reactResourceUpdate_no_removal [where ext = ext_all_construct and ord = new_orders
      and strict = False and rpath = "''res.yaml''" and r = reader0 and mgr = manager0]
  have "((Cache, ''old'') \<in> set (new_stores manager0 ?m)
         \<or> registry ?m (Cache, ''old'') \<noteq> registry manager0 (Cache, ''old''))
        \<longrightarrow> (\<exists>lints cf. readResource ext_all_construct ''res.yaml'' = (lints, Inr cf)
              \<and> ''old'' \<in> declared cf Cache)"
    by blast
  with undeclared have "(Cache, ''old'') \<notin> set (new_stores manager0 ?m)"
    "registry ?m (Cache, ''old'') = registry manager0 (Cache, ''old'')"
    by blast+
  with old absent ok show ?thesis by blast
qed

section \<open>The NSQ reader\<close>

lemma respond_fields [simp]:
  "consumer (respond rsp m n) = consumer n"
  "unAckMsgs (respond rsp m n) = unAckMsgs n"
  "interruptChan_closed (respond rsp m n) = interruptChan_closed n"
  "interruptOnce_done (respond rsp m n) = interruptOnce_done n"
  "stopped (respond rsp m n) = stopped n"
  "Body (msgs (respond rsp m n) m') = Body (msgs n m')"
  "responses (msgs (respond rsp m n) m') =
     (if m' = m then responses (msgs n m) @ [rsp] else responses (msgs n m'))"
  by (simp_all add: respond_def)

lemma requeue_all_fields [simp]:
  "consumer (requeue_all ms n) = consumer n"
  "unAckMsgs (requeue_all ms n) = unAckMsgs n"
  "interruptChan_closed (requeue_all ms n) = interruptChan_closed n"
  "interruptOnce_done (requeue_all ms n) = interruptOnce_done n"
  "stopped (requeue_all ms n) = stopped n"
  "Body (msgs (requeue_all ms n) m') = Body (msgs n m')"
  unfolding requeue_all_def by (induction ms arbitrary: n; simp)+

lemma requeue_all_responses:
  "responses (msgs (requeue_all ms n) m) =
     responses (msgs n m) @ concat (replicate (count_list ms m) [Requeue (- 1), Finish])"
  unfolding requeue_all_def
proof (induction ms arbitrary: n)
  case Nil
  then show ?case by simp
next
  case (Cons a ms)
  show ?case by (simp add: Cons.IH)
qed

lemma disconnect_fields [simp]:
  "fst (disconnect n) = None"
  "consumer (snd (disconnect n)) = None"
  "unAckMsgs (snd (disconnect n)) = unAckMsgs n"
  "interruptChan_closed (snd (disconnect n)) = interruptChan_closed n"
  "interruptOnce_done (snd (disconnect n)) = interruptOnce_done n"
  "msgs (snd (disconnect n)) = msgs n"
  by (simp_all add: disconnect_def split: option.splits)

lemma Connect_fields [simp]:
  "unAckMsgs (snd (nsqReader_Connect env n)) = unAckMsgs n"
  "interruptChan_closed (snd (nsqReader_Connect env n)) = interruptChan_closed n"
  "interruptOnce_done (snd (nsqReader_Connect env n)) = interruptOnce_done n"
  "msgs (snd (nsqReader_Connect env n)) = msgs n"
  by (simp_all add: nsqReader_Connect_def split: connect_env.splits)

lemma AckFn_fields [simp]:
  "fst (AckFn m res n) = None"
  "consumer (snd (AckFn m res n)) = consumer n"
  "unAckMsgs (snd (AckFn m res n)) = unAckMsgs n"
  "interruptChan_closed (snd (AckFn m res n)) = interruptChan_closed n"
  "interruptOnce_done (snd (AckFn m res n)) = interruptOnce_done n"
  by (simp_all add: AckFn_def Let_def)


lemma newNSQReader_fresh: "newNSQReader tls_unused unanswered nsq_conf = Inr fresh_reader"
  by (simp add: newNSQReader_def nsq_conf_def fresh_reader_def split_addresses_def)

lemma newNSQReader_state:
  "newNSQReader tls_Get store cf = Inr n \<Longrightarrow>
   \<not> interruptChan_closed n \<and> \<not> interruptOnce_done n \<and> unAckMsgs n = [] \<and> consumer n = None"
  by (auto simp: newNSQReader_def Let_def split: if_splits sum.splits)

lemma ReadBatch_cases:
  "nsqReader_ReadBatch sc n =
     (case sc of
        RecvMessage msg \<Rightarrow>
          Some (Inr ([Body (msgs n msg)], AckFn msg), n\<lparr>unAckMsgs := unAckMsgs n @ [msg]\<rparr>)
      | CtxDone \<Rightarrow> Some (Inl ErrTimeout, n)
      | Interrupt \<Rightarrow>
          if interruptChan_closed n
          then Some (Inl ErrTypeClosed,
                 snd (disconnect ((requeue_all (unAckMsgs n) n)\<lparr>unAckMsgs := []\<rparr>)))
          else None)"
  by (simp add: nsqReader_ReadBatch_def read_def ready_def Let_def split: select_case.splits)

lemma Close_cases:
  "nsqReader_Close n =
     (if interruptOnce_done n then Returns (disconnect n)
      else if interruptChan_closed n then Panic
      else Returns (disconnect (n\<lparr>interruptChan_closed := True, interruptOnce_done := True\<rparr>)))"
  by (simp add: nsqReader_Close_def interruptOnce_Do_def close_interruptChan_def)

lemma exec_Close:
  "exec CallClose n =
     (if interruptOnce_done n then Some (snd (disconnect n))
      else if interruptChan_closed n then None
      else Some (snd (disconnect (n\<lparr>interruptChan_closed := True, interruptOnce_done := True\<rparr>))))"
  by (simp add: Close_cases split: prod.splits)

lemma exec_once_guards: "once_guards n \<Longrightarrow> exec c n = Some n' \<Longrightarrow> once_guards n'"
  by (cases c)
    (auto simp: once_guards_def ReadBatch_cases exec_Close simp del: exec.simps(4)
      split: select_case.splits if_splits)

lemma run_once_guards: "once_guards n \<Longrightarrow> run cs n = Some n' \<Longrightarrow> once_guards n'"
proof (induction cs arbitrary: n)
  case Nil
  then show ?case by simp
next
  case (Cons c cs)
  then show ?case by (auto split: option.splits dest: exec_once_guards)
qed



lemma newNSQReader_once_guards: "newNSQReader tls_Get store cf = Inr n \<Longrightarrow> once_guards n"
  by (auto simp: once_guards_def dest: newNSQReader_state)

lemma disconnect_stopped [simp]:
  "stopped (snd (disconnect n)) = stopped n @ stops_due n"
  "stops_due (snd (disconnect n)) = []"
  by (simp_all add: disconnect_def stops_due_def split: option.splits)

lemma stops_due_once [simp]:
  "stops_due (n\<lparr>interruptChan_closed := a, interruptOnce_done := b\<rparr>) = stops_due n"
  by (simp add: stops_due_def)

lemma run_steps_once:
  "once_guards n \<Longrightarrow>
   \<exists>n'. run_steps sched n c =
           Returns (n', c + (if OnceDo \<in> set sched \<and> \<not> interruptOnce_done n then 1 else 0)) \<and>
        (interruptChan_closed n' \<longleftrightarrow>
           interruptChan_closed n \<or> (OnceDo \<in> set sched \<and> \<not> interruptOnce_done n)) \<and>
        consumer n' = (if Disconnect \<in> set sched then None else consumer n) \<and>
        stopped n' = stopped n @ (if Disconnect \<in> set sched then stops_due n else [])"
proof (induction sched arbitrary: n c)
  case Nil
  then show ?case by simp
next
  case (Cons s sched)
  show ?case
  proof (cases s)
    case OnceDo
    show ?thesis
    proof (cases "interruptOnce_done n")
      case True
      with Cons.IH [OF Cons.prems, of c] OnceDo show ?thesis
        by (simp add: interruptOnce_Do_def)
    next
      case False
      with Cons.prems have isopen: "\<not> interruptChan_closed n" by (simp add: once_guards_def)
      let ?n1 = "n\<lparr>interruptChan_closed := True, interruptOnce_done := True\<rparr>"
      have "once_guards ?n1" by (simp add: once_guards_def)
      from Cons.IH [OF this, of "Suc c"] show ?thesis
        using OnceDo False isopen
        by (cases "Disconnect \<in> set sched")
          (simp_all add: interruptOnce_Do_def close_interruptChan_def)
    qed
  next
    case Disconnect
    have "once_guards (snd (disconnect n))" using Cons.prems by (simp add: once_guards_def)
    from Cons.IH [OF this, of c] show ?thesis using Disconnect by (simp cong: if_cong)
  qed
qed

lemma Close_returns:
  "once_guards n \<Longrightarrow>
   \<exists>n'. nsqReader_Close n = Returns (None, n') \<and> interruptChan_closed n' \<and>
        interruptOnce_done n' \<and> consumer n' = None \<and>
        stopped n' = stopped n @ stops_due n \<and> once_guards n'"
  by (cases "disconnect n";
      cases "disconnect (n\<lparr>interruptChan_closed := True, interruptOnce_done := True\<rparr>)")
     (auto simp: Close_cases once_guards_def disconnect_def stops_due_def split: option.splits)

lemma run_Closes:
  "once_guards n \<Longrightarrow>
   \<exists>n'. run (replicate N CallClose) n = Some n' \<and>
        (0 < N \<longrightarrow> interruptChan_closed n' \<and> consumer n' = None) \<and>
        stopped n' = stopped n @ (if 0 < N then stops_due n else [])"
proof (induction N arbitrary: n)
  case 0
  then show ?case by simp
next
  case (Suc N)
  from Close_returns [OF Suc.prems] obtain n1 where
    c: "nsqReader_Close n = Returns (None, n1)" and cl: "interruptChan_closed n1"
    and co: "consumer n1 = None" and st: "stopped n1 = stopped n @ stops_due n"
    and g: "once_guards n1"
    by blast
  from co have due: "stops_due n1 = []" by (simp add: stops_due_def)
  from Suc.IH [OF g] obtain n' where r: "run (replicate N CallClose) n1 = Some n'"
    and k: "0 < N \<longrightarrow> interruptChan_closed n' \<and> consumer n' = None"
    and s: "stopped n' = stopped n1 @ (if 0 < N then stops_due n1 else [])"
    by blast
  have "interruptChan_closed n' \<and> consumer n' = None"
  proof (cases N)
    case 0
    with r cl co show ?thesis by simp
  next
    case (Suc j)
    with k show ?thesis by simp
  qed
  moreover have "stopped n' = stopped n @ stops_due n" using s st due by simp
  ultimately show ?case using c r by simp
qed

text \<open>
  C6. Take any state that a history of calls reaches from a new reader. Any number of
  calls of \<^verbatim>\<open>Close\<close>, their steps interleaved in any order, run to the end without a
  panic, and the \<^verbatim>\<open>close(n.interruptChan)\<close> runs once over all of them when the Once
  was not done before, and not at all when it was. The teardown is done once as well:
  as soon as one \<^verbatim>\<open>disconnect\<close> has run, \<^verbatim>\<open>Stop\<close> has been called on the consumer
  the reader had, on it alone and a single time, and the reader has no consumer. Each
  single \<^verbatim>\<open>Close\<close> returns nil with the channel closed, the consumer stopped and
  gone, and so do \<open>N\<close> of them in a row.
\<close>

theorem Close_idempotent:
  assumes "newNSQReader tls_Get store cf = Inr n0" and "run history n0 = Some n"
  shows "(\<exists>n'. run_steps sched n 0 =
              Returns (n', if OnceDo \<in> set sched \<and> \<not> interruptOnce_done n then 1 else 0) \<and>
              (interruptChan_closed n' \<longleftrightarrow>
                 interruptChan_closed n \<or> (OnceDo \<in> set sched \<and> \<not> interruptOnce_done n)) \<and>
              consumer n' = (if Disconnect \<in> set sched then None else consumer n) \<and>
              stopped n' = stopped n @ (if Disconnect \<in> set sched then stops_due n else []))
     \<and> (\<exists>n'. nsqReader_Close n = Returns (None, n') \<and> interruptChan_closed n' \<and>
              interruptOnce_done n' \<and> consumer n' = None \<and>
              stopped n' = stopped n @ stops_due n)
     \<and> (\<exists>n'. run (replicate N CallClose) n = Some n' \<and>
              (0 < N \<longrightarrow> interruptChan_closed n' \<and> consumer n' = None) \<and>
              stopped n' = stopped n @ (if 0 < N then stops_due n else []))"
proof -
  from assms have g: "once_guards n"
    by (blast intro: run_once_guards newNSQReader_once_guards)
  from run_steps_once [OF g, of sched 0] Close_returns [OF g] run_Closes [OF g, of N]
  show ?thesis by auto
qed

lemma run_append:
  "run (xs @ ys) n = (case run xs n of None \<Rightarrow> None | Some n1 \<Rightarrow> run ys n1)"
  by (induction xs arbitrary: n) (auto split: option.splits)

lemma exec_keeps_unacked:
  "exec c n = Some n' \<Longrightarrow> c \<noteq> CallReadBatch Interrupt \<Longrightarrow> prefix (unAckMsgs n) (unAckMsgs n')"
  by (cases c)
    (auto simp: ReadBatch_cases exec_Close simp del: exec.simps(4)
      split: select_case.splits if_splits)

lemma run_keeps_unacked:
  "run cs n = Some n' \<Longrightarrow> CallReadBatch Interrupt \<notin> set cs \<Longrightarrow>
   prefix (unAckMsgs n) (unAckMsgs n')"
proof (induction cs arbitrary: n)
  case Nil
  then show ?case by simp
next
  case (Cons c cs)
  from Cons.prems obtain n1 where 1: "exec c n = Some n1" and 2: "run cs n1 = Some n'"
    by (auto split: option.splits)
  from Cons.prems have "c \<noteq> CallReadBatch Interrupt" "CallReadBatch Interrupt \<notin> set cs"
    by auto
  with exec_keeps_unacked [OF 1] Cons.IH [OF 2] show ?case
    by (blast intro: prefix_order.trans)
qed

lemma delivered_unacked:
  assumes "run (before @ CallReadBatch (RecvMessage m) # after) n0 = Some n"
    and "CallReadBatch Interrupt \<notin> set after"
  shows "m \<in> set (unAckMsgs n)"
proof -
  from assms(1) obtain n1 n2 where "run before n0 = Some n1"
    and d: "exec (CallReadBatch (RecvMessage m)) n1 = Some n2" and r: "run after n2 = Some n"
    by (auto simp: run_append split: option.splits)
  from d have "m \<in> set (unAckMsgs n2)" by (auto simp: ReadBatch_cases)
  moreover from run_keeps_unacked [OF r assms(2)] have "set (unAckMsgs n2) \<subseteq> set (unAckMsgs n)"
    by (rule set_mono_prefix)
  ultimately show ?thesis by blast
qed

lemma count_list_pos: "m \<in> set ms \<Longrightarrow> 0 < count_list ms m"
  by (induction ms) auto

text \<open>
  C5. A \<^verbatim>\<open>ReadBatch\<close> returns exactly when the case its \<^verbatim>\<open>select\<close> takes is
  ready, and then in one of three ways, fixed by the case: a message gives the batch of
  its body with the closure and no error; the context gives \<^verbatim>\<open>ErrTimeout\<close> and
  changes nothing; the shutdown signal gives \<^verbatim>\<open>ErrTypeClosed\<close>, and before that every
  message of \<^verbatim>\<open>unAckMsgs\<close> has got \<^verbatim>\<open>Requeue(-1)\<close> and \<^verbatim>\<open>Finish\<close> (once for
  each time it is in the list), the list is empty and the consumer stopped. A message
  delivered since the last such return is in \<^verbatim>\<open>unAckMsgs\<close>, whatever was called in
  between, so every delivered message that was not acknowledged is requeued.
\<close>

theorem ReadBatch_outcomes:
  "(nsqReader_ReadBatch sc n \<noteq> None \<longleftrightarrow> ready n sc)
   \<and> (\<forall>msg. sc = RecvMessage msg \<longrightarrow>
         nsqReader_ReadBatch sc n =
           Some (Inr ([Body (msgs n msg)], AckFn msg), n\<lparr>unAckMsgs := unAckMsgs n @ [msg]\<rparr>))
   \<and> (sc = CtxDone \<longrightarrow> nsqReader_ReadBatch sc n = Some (Inl ErrTimeout, n))
   \<and> (sc = Interrupt \<and> interruptChan_closed n \<longrightarrow>
        (\<exists>n'. nsqReader_ReadBatch sc n = Some (Inl ErrTypeClosed, n') \<and>
              unAckMsgs n' = [] \<and> consumer n' = None \<and>
              (\<forall>m. responses (msgs n' m) =
                     responses (msgs n m) @
                     concat (replicate (count_list (unAckMsgs n) m) [Requeue (- 1), Finish]))))
   \<and> (run (before @ CallReadBatch (RecvMessage m) # after) n0 = Some n \<and>
        CallReadBatch Interrupt \<notin> set after \<longrightarrow>
        0 < count_list (unAckMsgs n) m)"
proof (intro conjI)
  show "nsqReader_ReadBatch sc n \<noteq> None \<longleftrightarrow> ready n sc"
    by (simp add: ReadBatch_cases ready_def split: select_case.splits)
  show "\<forall>msg. sc = RecvMessage msg \<longrightarrow>
         nsqReader_ReadBatch sc n =
           Some (Inr ([Body (msgs n msg)], AckFn msg), n\<lparr>unAckMsgs := unAckMsgs n @ [msg]\<rparr>)"
    by (simp add: ReadBatch_cases)
  show "sc = CtxDone \<longrightarrow> nsqReader_ReadBatch sc n = Some (Inl ErrTimeout, n)"
    by (simp add: ReadBatch_cases)
  show "sc = Interrupt \<and> interruptChan_closed n \<longrightarrow>
        (\<exists>n'. nsqReader_ReadBatch sc n = Some (Inl ErrTypeClosed, n') \<and>
              unAckMsgs n' = [] \<and> consumer n' = None \<and>
              (\<forall>m. responses (msgs n' m) =
                     responses (msgs n m) @
                     concat (replicate (count_list (unAckMsgs n) m) [Requeue (- 1), Finish])))"
    by (simp add: ReadBatch_cases requeue_all_responses)
  show "run (before @ CallReadBatch (RecvMessage m) # after) n0 = Some n \<and>
        CallReadBatch Interrupt \<notin> set after \<longrightarrow>
        0 < count_list (unAckMsgs n) m"
    using delivered_unacked [of before m after n0 n] by (auto intro: count_list_pos)
qed





lemma fresh_fields:
  "interruptChan_closed fresh_reader = False" "interruptOnce_done fresh_reader = False"
  "unAckMsgs fresh_reader = []" "consumer fresh_reader = None" "msgs fresh_reader = unanswered"
  "stopped fresh_reader = []"
  by (simp_all add: fresh_reader_def)


theorem Close_idempotent_witness:
  "newNSQReader tls_unused unanswered nsq_conf = Inr fresh_reader
   \<and> run [CallConnect (Connects 7)] fresh_reader
       = Some (snd (nsqReader_Connect (Connects 7) fresh_reader))
   \<and> consumer (snd (nsqReader_Connect (Connects 7) fresh_reader)) = Some 7
   \<and> stopped (snd (nsqReader_Connect (Connects 7) fresh_reader)) = []
   \<and> (\<exists>n'. run_steps two_closes_interleaved (snd (nsqReader_Connect (Connects 7) fresh_reader)) 0
            = Returns (n', 1) \<and> interruptChan_closed n' \<and> consumer n' = None \<and> stopped n' = [7])
   \<and> (\<exists>n'. nsqReader_Close (snd (nsqReader_Connect (Connects 7) fresh_reader)) = Returns (None, n')
          \<and> interruptChan_closed n' \<and> consumer n' = None \<and> stopped n' = [7])
   \<and> (\<exists>n'. run (replicate 3 CallClose) (snd (nsqReader_Connect (Connects 7) fresh_reader)) = Some n'
          \<and> interruptChan_closed n' \<and> consumer n' = None \<and> stopped n' = [7])"
proof -
  let ?n = "snd (nsqReader_Connect (Connects 7) fresh_reader)"
  have made: "newNSQReader tls_unused unanswered nsq_conf = Inr fresh_reader"
    by (rule newNSQReader_fresh)
  have ran: "run [CallConnect (Connects 7)] fresh_reader = Some ?n"
    by simp
  have fresh: "\<not> interruptOnce_done ?n"
    by (simp add: fresh_fields)
  have con: "consumer ?n = Some 7" "stopped ?n = []"
    by (simp_all add: nsqReader_Connect_def fresh_fields)
  then have due: "stops_due ?n = [7]" "stopped ?n = []"
    by (simp_all add: stops_due_def)
  have step: "OnceDo \<in> set two_closes_interleaved" "Disconnect \<in> set two_closes_interleaved"
    by (simp_all add: two_closes_interleaved_def)
  note all = Close_idempotent [OF made ran, of two_closes_interleaved 3]
  from all fresh step due have
    "\<exists>n'. run_steps two_closes_interleaved ?n 0 = Returns (n', 1) \<and> interruptChan_closed n'
        \<and> consumer n' = None \<and> stopped n' = [7]"
    by auto
  moreover from all due have
    "\<exists>n'. nsqReader_Close ?n = Returns (None, n') \<and> interruptChan_closed n' \<and> consumer n' = None
        \<and> stopped n' = [7]"
    by auto
  moreover from all due have
    "\<exists>n'. run (replicate 3 CallClose) ?n = Some n' \<and> interruptChan_closed n' \<and> consumer n' = None
        \<and> stopped n' = [7]"
    by auto
  ultimately show ?thesis using made ran con by blast
qed

theorem ReadBatch_outcomes_witness:
  "run ([] @ CallReadBatch (RecvMessage 0) # [CallClose]) fresh_reader = Some delivered_then_closed
   \<and> ready delivered_then_closed Interrupt
   \<and> nsqReader_ReadBatch Interrupt delivered_then_closed \<noteq> None
   \<and> count_list (unAckMsgs delivered_then_closed) 0 = 1
   \<and> (\<exists>n'. nsqReader_ReadBatch Interrupt delivered_then_closed = Some (Inl ErrTypeClosed, n')
          \<and> unAckMsgs n' = [] \<and> responses (msgs n' 0) = [Requeue (- 1), Finish])"
proof -
  have ran: "run ([] @ CallReadBatch (RecvMessage 0) # [CallClose]) fresh_reader
      = Some delivered_then_closed"
    by (simp add: ReadBatch_cases Close_cases fresh_fields disconnect_def delivered_then_closed_def)
  have closed: "interruptChan_closed delivered_then_closed"
    by (simp add: delivered_then_closed_def)
  have empty: "responses (msgs delivered_then_closed 0) = []"
    by (simp add: delivered_then_closed_def fresh_fields unanswered_def)
  have one: "count_list (unAckMsgs delivered_then_closed) 0 = 1"
    by (simp add: delivered_then_closed_def)
  from ReadBatch_outcomes [where sc = Interrupt and n = delivered_then_closed and before = "[]"
      and m = 0 and after = "[CallClose]" and ?n0.0 = fresh_reader]
  show ?thesis using ran closed empty one
    by (auto simp: ready_def)
qed

lemma acknowledged_before_shutdown_stays_finished:
  "run acked_then_closed fresh_reader \<noteq> None
   \<and> responses (msgs (the (run acked_then_closed fresh_reader)) 0) = [Finish, Requeue (- 1), Finish]
   \<and> forwarded (msgs (the (run acked_then_closed fresh_reader)) 0) = Some Finish"
  by (simp add: acked_then_closed_def ReadBatch_cases Close_cases nsqReader_Connect_def
      fresh_fields AckFn_def respond_def requeue_all_def disconnect_def unanswered_def Let_def
      forwarded_def)


end
